theory Spec2Isabelle
  imports Main "HOL-Library.Sublist"
begin

section \<open>Python strings\<close>

text \<open>
  A Python \<open>str\<close> is a sequence of Unicode code points, and \<open>len\<close> and slicing count code
  points. A code point is a natural number here; \<open>u\<close> reads an ASCII literal.
\<close>

type_synonym codepoint = nat
type_synonym pystr = "codepoint list"

definition u :: "string \<Rightarrow> pystr" where
  "u s = map of_char s"

text \<open>
  \<open>str.isspace\<close> on one code point: the whitespace table of CPython
  (U+0009..U+000D, U+001C..U+0020, U+0085, U+00A0, U+1680, U+2000..U+200A, U+2028, U+2029,
  U+202F, U+205F, U+3000).
\<close>

definition py_isspace :: "codepoint \<Rightarrow> bool" where
  "py_isspace c \<longleftrightarrow>
     (9 \<le> c \<and> c \<le> 13) \<or> (28 \<le> c \<and> c \<le> 32) \<or> c = 133 \<or> c = 160 \<or> c = 5760 \<or>
     (8192 \<le> c \<and> c \<le> 8202) \<or> c = 8232 \<or> c = 8233 \<or> c = 8239 \<or> c = 8287 \<or> c = 12288"

text \<open>\<open>s.strip()\<close>: whitespace removed at both ends.\<close>

definition py_strip :: "pystr \<Rightarrow> pystr" where
  "py_strip s = rev (dropWhile py_isspace (rev (dropWhile py_isspace s)))"

text \<open>
  \<open>s.lower()\<close>, code point by code point. \<open>A\<close>..\<open>Z\<close> go to \<open>a\<close>..\<open>z\<close>. Two code points
  outside ASCII have a lowercase form that contains an ASCII letter: U+0130 gives \<open>i\<close> followed
  by U+0307, and U+212A (the Kelvin sign) gives \<open>k\<close>. Every other code point outside ASCII has
  a lowercase form of one code point outside ASCII; the scripts read a lowered string only
  through the substitution \<open>[^a-z0-9_]\<close> and through comparison with ASCII words, which do not
  tell such code points apart, so they are left as they are.
\<close>

definition lower_cp :: "codepoint \<Rightarrow> pystr" where
  "lower_cp c =
     (if 65 \<le> c \<and> c \<le> 90 then [c + 32]
      else if c = 304 then [105, 775]
      else if c = 8490 then [107]
      else [c])"

definition py_lower :: "pystr \<Rightarrow> pystr" where
  "py_lower s = concat (map lower_cp s)"

section \<open>Column-name sanitization\<close>

text \<open>The character class \<open>[a-z0-9_]\<close>.\<close>

definition ident_char :: "codepoint \<Rightarrow> bool" where
  "ident_char c \<longleftrightarrow> (97 \<le> c \<and> c \<le> 122) \<or> (48 \<le> c \<and> c \<le> 57) \<or> c = 95"

text \<open>\<open>re.sub(r"[^a-z0-9_]", "_", name)\<close>.\<close>

definition sub_non_ident :: "pystr \<Rightarrow> pystr" where
  "sub_non_ident s = map (\<lambda>c. if ident_char c then c else 95) s"

text \<open>\<open>re.sub(r"_+", "_", name)\<close>: every maximal run of underscores becomes one underscore.\<close>

function collapse_underscores :: "pystr \<Rightarrow> pystr" where
  "collapse_underscores [] = []"
| "collapse_underscores (c # cs) =
     (if c = 95 then 95 # collapse_underscores (dropWhile (\<lambda>d. d = 95) cs)
      else c # collapse_underscores cs)"
  by pat_completeness auto
termination
  by (relation "measure length") (auto simp: less_Suc_eq_le length_dropWhile_le)

text \<open>\<open>name.lstrip("_")\<close>.\<close>

definition lstrip_underscores :: "pystr \<Rightarrow> pystr" where
  "lstrip_underscores s = dropWhile (\<lambda>c. c = 95) s"

text \<open>
  \<open>str.isdigit\<close> where the source calls it: on the first character of a name that holds only
  \<open>[a-z0-9_]\<close>, where it is the test for \<open>0\<close>..\<open>9\<close>.
\<close>

definition py_isdigit :: "codepoint \<Rightarrow> bool" where
  "py_isdigit c \<longleftrightarrow> 48 \<le> c \<and> c \<le> 57"

text \<open>
  \<open>sanitize_column_name\<close>. The read \<open>name[0]\<close> comes after the return on an empty name, so the
  two are one case distinction on the name.
\<close>

definition sanitize_column_name :: "pystr \<Rightarrow> pystr" where
  "sanitize_column_name raw =
     (let name = py_strip raw in
      if name = [] then u ''_unnamed''
      else
        let name = py_lower name;
            name = sub_non_ident name;
            name = collapse_underscores name;
            name = lstrip_underscores name
        in case name of
             [] \<Rightarrow> u ''_unnamed''
           | c # _ \<Rightarrow> take 63 (if py_isdigit c then u ''col_'' @ name else name))"

text \<open>
  The letters and digits of the specification: the ASCII digits and letters, and the two
  code points whose lowercase form holds an ASCII letter.
\<close>

definition letter_or_digit :: "codepoint \<Rightarrow> bool" where
  "letter_or_digit c \<longleftrightarrow>
     (48 \<le> c \<and> c \<le> 57) \<or> (65 \<le> c \<and> c \<le> 90) \<or> (97 \<le> c \<and> c \<le> 122) \<or> c = 304 \<or> c = 8490"

section \<open>Column mapping\<close>

text \<open>\<open>str(n)\<close> for a Python integer: decimal digits, with a minus sign when negative.\<close>

fun str_nat :: "nat \<Rightarrow> pystr" where
  "str_nat n = (if n < 10 then [48 + n] else str_nat (n div 10) @ [48 + n mod 10])"

declare str_nat.simps [simp del]

definition py_str_int :: "int \<Rightarrow> pystr" where
  "py_str_int i = (if i < 0 then 45 # str_nat (nat (- i)) else str_nat (nat i))"

text \<open>
  The exceptions of the scripts: those of Python itself, \<open>HTTPError\<close> and \<open>ConnectionError\<close>
  of the HTTP library, and \<open>ClientError\<close> and \<open>APIError\<close> for what the database client raises
  when it is built and when the upsert is executed.
\<close>

datatype error =
  KeyError | ValueError | FileNotFoundError | JSONDecodeError | TypeError | AttributeError
  | HTTPError | ConnectionError | ClientError | APIError

text \<open>
  The dictionary \<open>seen\<close> maps a name to its counter; the result list holds the
  \<open>(original_header, sanitized_name)\<close> pairs in the order they were appended.
\<close>

type_synonym seen_dict = "pystr \<rightharpoonup> int"
type_synonym column_map = "(pystr \<times> pystr) list"

text \<open>\<open>f"{base}_{seen[base]}"[:63]\<close>, for the counter value \<open>n\<close>.\<close>

definition candidate_name :: "pystr \<Rightarrow> int \<Rightarrow> pystr" where
  "candidate_name base n = take 63 (base @ [95] @ py_str_int n)"

text \<open>
  The inner loop \<open>while candidate in seen: seen[base] += 1; candidate = ...\<close>. Nothing bounds
  the number of rounds, so the result is an option and \<open>None\<close> stands for a loop that never
  ends. \<open>seen[base] += 1\<close> raises \<open>KeyError\<close> on a missing key.
\<close>

partial_function (option) while_candidate ::
  "seen_dict \<Rightarrow> pystr \<Rightarrow> pystr \<Rightarrow> (error + seen_dict \<times> pystr) option" where
  "while_candidate seen base candidate =
     (if seen candidate \<noteq> None then
        (case seen base of
           None \<Rightarrow> Some (Inl KeyError)
         | Some n \<Rightarrow> while_candidate (seen(base \<mapsto> n + 1)) base (candidate_name base (n + 1)))
      else Some (Inr (seen, candidate)))"

text \<open>
  The loop \<open>for header in headers\<close>. The test \<open>base not in seen\<close> and the read of
  \<open>seen[base]\<close> in the other branch are one lookup.
\<close>

fun column_loop ::
  "seen_dict \<Rightarrow> column_map \<Rightarrow> pystr list \<Rightarrow> (error + column_map) option" where
  "column_loop seen result [] = Some (Inr result)"
| "column_loop seen result (header # headers) =
     (let base = sanitize_column_name header in
      case seen base of
        None \<Rightarrow> column_loop (seen(base \<mapsto> 1)) (result @ [(header, base)]) headers
      | Some n \<Rightarrow>
          (case while_candidate (seen(base \<mapsto> n + 1)) base (candidate_name base (n + 1)) of
             None \<Rightarrow> None
           | Some (Inl e) \<Rightarrow> Some (Inl e)
           | Some (Inr (seen', candidate)) \<Rightarrow>
               column_loop (seen'(candidate \<mapsto> 1)) (result @ [(header, candidate)]) headers))"

definition build_column_map :: "pystr list \<Rightarrow> (error + column_map) option" where
  "build_column_map headers = column_loop [u ''id'' \<mapsto> 1] [] headers"

text \<open>
  The naming rule of the specification, for the pair at position \<open>i\<close> of a mapping: the names
  assigned so far are \<open>id\<close> and the names of the earlier pairs; the name is not among them; if
  the header's base name is among them, the name is the base with \<open>_n\<close> appended and cut to
  63 characters, for the least \<open>n \<ge> 2\<close> whose candidate is not among them; otherwise it is
  the base name.
\<close>

definition spec_naming :: "column_map \<Rightarrow> nat \<Rightarrow> bool" where
  "spec_naming cm i \<longleftrightarrow>
     (let base = sanitize_column_name (fst (cm ! i));
          assigned = insert (u ''id'') (set (take i (map snd cm)))
      in snd (cm ! i) \<notin> assigned \<and>
         (if base \<in> assigned
          then \<exists>n\<ge>2. snd (cm ! i) = candidate_name base n \<and>
                 (\<forall>m. 2 \<le> m \<and> m < n \<longrightarrow> candidate_name base m \<in> assigned)
          else snd (cm ! i) = base))"

text \<open>Looking a sanitized name up among the recorded pairs gives the original header.\<close>

definition original_of :: "column_map \<Rightarrow> pystr \<Rightarrow> pystr option" where
  "original_of cm name = map_of (map (\<lambda>(original, sanitized). (sanitized, original)) cm) name"

text \<open>
  The invariant of the outer loop: the keys of \<open>seen\<close> are \<open>id\<close> and the names assigned so
  far, every candidate up to a name's counter has been taken, and every pair appended so
  far follows the naming rule.
\<close>

definition counters_ok :: "seen_dict \<Rightarrow> bool" where
  "counters_ok seen \<longleftrightarrow>
     (\<forall>b n. seen b = Some n \<longrightarrow>
        1 \<le> n \<and> (\<forall>m. 2 \<le> m \<and> m \<le> n \<longrightarrow> candidate_name b m \<in> dom seen))"

definition loop_inv :: "seen_dict \<Rightarrow> column_map \<Rightarrow> bool" where
  "loop_inv seen result \<longleftrightarrow>
     dom seen = insert (u ''id'') (set (map snd result)) \<and> counters_ok seen \<and>
     (\<forall>i<length result. spec_naming result i)"

section \<open>Rows and the row filter\<close>

text \<open>
  A sheet row is a Python dict from header to cell text, both strings; it is the list of
  its items in insertion order, with no key twice.
\<close>

type_synonym row = "(pystr \<times> pystr) list"

text \<open>\<open>row.get(key, default)\<close>.\<close>

definition py_get :: "row \<Rightarrow> pystr \<Rightarrow> pystr \<Rightarrow> pystr" where
  "py_get row key dflt = (case map_of row key of None \<Rightarrow> dflt | Some v \<Rightarrow> v)"

definition TEST_ENTRIES :: "(pystr \<times> pystr) list" where
  "TEST_ENTRIES = [(u ''john'', u ''doe''), (u ''test'', u ''subject'')]"

text \<open>The loop of \<open>filter_rows\<close>, with the list \<open>kept\<close> it appends to.\<close>

fun filter_loop :: "row list \<Rightarrow> row list \<Rightarrow> row list" where
  "filter_loop kept [] = kept"
| "filter_loop kept (row # rows) =
     (let given = py_lower (py_strip (py_get row (u ''given_name'') []));
          family = py_lower (py_strip (py_get row (u ''family_name'') []));
          email = py_strip (py_get row (u ''email_address'') []);
          phone = py_strip (py_get row (u ''phone_number'') [])
      in if (given, family) \<in> set TEST_ENTRIES then filter_loop kept rows
         else if email = [] \<and> phone = [] then filter_loop kept rows
         else filter_loop (kept @ [row]) rows)"

definition filter_rows :: "row list \<Rightarrow> row list" where
  "filter_rows rows = filter_loop [] rows"

text \<open>
  The test the loop makes on one row, as one predicate: the row is appended to \<open>kept\<close>
  exactly when it holds.
\<close>

definition row_kept :: "row \<Rightarrow> bool" where
  "row_kept row \<longleftrightarrow>
     (py_lower (py_strip (py_get row (u ''given_name'') [])),
      py_lower (py_strip (py_get row (u ''family_name'') [])))
       \<notin> {(u ''john'', u ''doe''), (u ''test'', u ''subject'')} \<and>
     \<not> (py_strip (py_get row (u ''email_address'') []) = [] \<and>
        py_strip (py_get row (u ''phone_number'') []) = [])"

text \<open>
  The specification's rule for one row, in its own terms. A string is blank when it holds
  only whitespace, so that trimming leaves nothing. \<open>t\<close> is what trimming leaves of \<open>s\<close>
  when \<open>s\<close> is \<open>t\<close> between two blank strings and \<open>t\<close> neither starts nor ends with
  whitespace. \<open>t\<close> lowercased is the ASCII word \<open>w\<close> when they agree character by character
  up to the case of the letters \<open>A\<close> to \<open>Z\<close>. A field reads as \<open>w\<close> when it is \<open>w\<close> once
  trimmed and lowercased; a missing field is the empty string. A row is kept when its given
  and family name do not read as \<open>john\<close> and \<open>doe\<close>, nor as \<open>test\<close> and \<open>subject\<close>, and
  its email address and phone number are not both blank.
\<close>

definition blank :: "pystr \<Rightarrow> bool" where
  "blank s \<longleftrightarrow> (\<forall>c \<in> set s. py_isspace c)"

definition trimmed_to :: "pystr \<Rightarrow> pystr \<Rightarrow> bool" where
  "trimmed_to s t \<longleftrightarrow>
     (\<exists>pre post. s = pre @ t @ post \<and> blank pre \<and> blank post \<and>
        (t \<noteq> [] \<longrightarrow> \<not> py_isspace (hd t) \<and> \<not> py_isspace (last t)))"

definition lowercase_is :: "pystr \<Rightarrow> pystr \<Rightarrow> bool" where
  "lowercase_is t w \<longleftrightarrow>
     list_all2 (\<lambda>c d. c = d \<or> (65 \<le> c \<and> c \<le> 90 \<and> c + 32 = d)) t w"

definition reads_as :: "pystr \<Rightarrow> pystr \<Rightarrow> bool" where
  "reads_as s w \<longleftrightarrow> (\<exists>t. trimmed_to s t \<and> lowercase_is t w)"

definition field :: "row \<Rightarrow> pystr \<Rightarrow> pystr" where
  "field row key = (case map_of row key of None \<Rightarrow> [] | Some v \<Rightarrow> v)"

definition spec_keeps :: "row \<Rightarrow> bool" where
  "spec_keeps row \<longleftrightarrow>
     \<not> (reads_as (field row (u ''given_name'')) (u ''john'') \<and>
        reads_as (field row (u ''family_name'')) (u ''doe'')) \<and>
     \<not> (reads_as (field row (u ''given_name'')) (u ''test'') \<and>
        reads_as (field row (u ''family_name'')) (u ''subject'')) \<and>
     \<not> (blank (field row (u ''email_address'')) \<and> blank (field row (u ''phone_number'')))"

text \<open>\<open>rows_to_values\<close>: a value is \<open>None\<close> or a string.\<close>

definition rows_to_values :: "row list \<Rightarrow> pystr list \<Rightarrow> pystr option list list" where
  "rows_to_values rows headers =
     map (\<lambda>row. map (\<lambda>h. let v = py_get row h [] in if v = [] then None else Some v) headers)
       rows"

section \<open>SQL building\<close>

text \<open>\<open>sep.join(parts)\<close>.\<close>

fun py_join :: "pystr \<Rightarrow> pystr list \<Rightarrow> pystr" where
  "py_join sep [] = []"
| "py_join sep [x] = x"
| "py_join sep (x # y # ys) = x @ sep @ py_join sep (y # ys)"

text \<open>\<open>s.replace(old, new)\<close> for a pattern \<open>old\<close> of one character.\<close>

definition py_replace :: "codepoint \<Rightarrow> pystr \<Rightarrow> pystr \<Rightarrow> pystr" where
  "py_replace old new s = concat (map (\<lambda>c. if c = old then new else [c]) s)"

text \<open>
  A value handed to the SQL builder is \<open>None\<close> or a scalar: a string, an integer or a
  boolean. \<open>py_str\<close> is \<open>str(val)\<close>.
\<close>

datatype pyval = PyStr pystr | PyInt int | PyBool bool

definition py_str :: "pyval \<Rightarrow> pystr" where
  "py_str val =
     (case val of
        PyStr s \<Rightarrow> s
      | PyInt i \<Rightarrow> py_str_int i
      | PyBool b \<Rightarrow> if b then u ''True'' else u ''False'')"

text \<open>\<open>escape_sql_value\<close>.\<close>

definition escape_sql_value :: "pyval option \<Rightarrow> pystr" where
  \<open>escape_sql_value val =
     (case val of
        None \<Rightarrow> u ''NULL''
      | Some v \<Rightarrow> [39] @ py_replace 39 [39, 39] (py_str v) @ [39])\<close>

definition build_values_clause :: "pyval option list list \<Rightarrow> pystr" where
  \<open>build_values_clause rows =
     py_join (u '','' @ [10])
       (map (\<lambda>row. u ''('' @ py_join (u '', '') (map escape_sql_value row) @ u '')'') rows)\<close>

definition build_full_sql :: "pystr \<Rightarrow> pystr list \<Rightarrow> pyval option list list \<Rightarrow> pystr" where
  \<open>build_full_sql table col_names value_rows =
     (let drop = u ''DROP TABLE IF EXISTS "'' @ table @ u ''";'';
          cols_ddl = py_join (u '','' @ [10] @ u ''    '')
                       (map (\<lambda>col. u ''"'' @ col @ u ''" TEXT'') col_names);
          create = u ''CREATE TABLE "'' @ table @ u ''" ('' @ [10] @
                   u ''    id SERIAL PRIMARY KEY,'' @ [10] @
                   u ''    '' @ cols_ddl @ [10] @
                   u '');'';
          cols_list = py_join (u '', '') (map (\<lambda>col. u ''"'' @ col @ u ''"'') col_names);
          values = build_values_clause value_rows;
          insert = u ''INSERT INTO "'' @ table @ u ''" ('' @ cols_list @ u '') VALUES'' @ [10] @
                   values @ u '';''
      in drop @ [10] @ create @ [10] @ insert)\<close>

text \<open>
  The specification's string literal body: every single quote doubled, other characters
  unchanged.
\<close>

primrec spec_quote :: "pystr \<Rightarrow> pystr" where
  "spec_quote [] = []"
| "spec_quote (c # cs) = (if c = 39 then 39 # 39 # spec_quote cs else c # spec_quote cs)"

text \<open>
  The specification's list text: the parts in their order, with the separator before every
  part but the first.
\<close>

definition separated :: "pystr \<Rightarrow> pystr list \<Rightarrow> pystr" where
  "separated sep parts =
     (case parts of [] \<Rightarrow> [] | first # rest \<Rightarrow> first @ concat (map (\<lambda>part. sep @ part) rest))"

section \<open>The drivers\<close>

text \<open>
  What a run finds in \<open>.tmp/sheet_data.json\<close>: no file; a file that is not JSON; a JSON value
  that is not an array (falsy; a truthy number or boolean; a non-empty string or object); or
  an array of row objects.
\<close>

datatype other_json = Falsy | TruthyNumber | TruthyText

datatype input_file = Missing | Malformed | NotAList other_json | Rows "row list"

text \<open>The answer to the POST: no connection, or a status code and whether the body is JSON.\<close>

datatype http_result = NoConnection | Response nat bool

text \<open>The answer of the upsert call: a failure, or the number of rows in \<open>response.data\<close>.\<close>

datatype upsert_result = ApiFailure | Affected nat

text \<open>
  \<open>json.loads(COLUMN_MAP_RAW)\<close>: not JSON; JSON that is not an object; an object from sheet
  headers to column names, as its items.
\<close>

datatype column_map_json = BadJson | NotADict | Dict "(pystr \<times> pystr) list"

text \<open>The lines a run prints, by print statement and with the values they show.\<close>

datatype message =
  EmptyInput | Filtered nat nat | NothingLeft | NothingToUpsert
  | MappingReport pystr nat nat "(pystr \<times> pystr \<times> bool) list"
  | Sending | Inserted nat pystr | ApiStatus nat | ApiBody
  | Mapped nat | Upserting pystr pystr | NoRows | Done nat

text \<open>What a run does to the world outside, in order.\<close>

datatype event =
  InputExists | InputRead | Stdout message | Stderr message
  | PostQuery pystr pystr pystr
  | CreateClient pystr pystr
  | UpsertCall pystr pystr "row list"

text \<open>
  How a run ends: \<open>main\<close> returns, \<open>sys.exit(n)\<close> is called, or an exception leaves \<open>main\<close>
  (the interpreter then exits with status 1).
\<close>

datatype outcome = Returned | Exit nat | Raised error

definition exit_status :: "outcome \<Rightarrow> nat" where
  "exit_status out = (case out of Returned \<Rightarrow> 0 | Exit n \<Rightarrow> n | Raised e \<Rightarrow> 1)"

text \<open>
  A setting read by \<open>os.getenv\<close> is \<open>None\<close> or a string; \<open>not X\<close> holds for \<open>None\<close> and for the
  empty string. \<open>setting\<close> is the check \<open>if not X: raise ValueError(...)\<close>, giving the string
  when it passes.
\<close>

definition unset :: "pystr option \<Rightarrow> bool" where
  "unset v \<longleftrightarrow> v = None \<or> v = Some []"

definition setting :: "pystr option \<Rightarrow> error + pystr" where
  "setting v = (case v of None \<Rightarrow> Inl ValueError | Some s \<Rightarrow> if s = [] then Inl ValueError else Inr s)"

definition load_rows :: "input_file \<Rightarrow> (error + row list) \<times> event list" where
  "load_rows file =
     (case file of
        Missing \<Rightarrow> (Inl FileNotFoundError, [InputExists])
      | Malformed \<Rightarrow> (Inl JSONDecodeError, [InputExists, InputRead])
      | NotAList _ \<Rightarrow> (Inl ValueError, [InputExists, InputRead])
      | Rows rows \<Rightarrow> (Inr rows, [InputExists, InputRead]))"

text \<open>
  \<open>run_query\<close>: \<open>raise_for_status\<close> raises for the codes 400 to 599; \<open>resp.json()\<close> raises
  when the body is not JSON.
\<close>

definition run_query ::
  "pystr \<Rightarrow> pystr \<Rightarrow> (pystr \<Rightarrow> http_result) \<Rightarrow> pystr \<Rightarrow> (error + unit) \<times> event list" where
  "run_query PROJECT_REF MANAGEMENT_KEY api sql =
     (let ev = [PostQuery PROJECT_REF MANAGEMENT_KEY sql] in
      case api sql of
        NoConnection \<Rightarrow> (Inl ConnectionError, ev)
      | Response status json \<Rightarrow>
          if status \<noteq> 200 \<and> status \<noteq> 201 then
            (let ev = ev @ [Stderr (ApiStatus status), Stderr ApiBody] in
             if 400 \<le> status \<and> status < 600 then (Inl HTTPError, ev)
             else if json then (Inr (), ev) else (Inl JSONDecodeError, ev))
          else if json then (Inr (), ev) else (Inl JSONDecodeError, ev))"

text \<open>
  \<open>main\<close> of \<open>create_table_and_insert.py\<close>, from the three settings, the input file and the
  API's answers, to how the run ends and what it did; \<open>None\<close> when it does not end.
  The value rows hold \<open>None\<close> and cell texts, which the SQL builder takes as string values.
\<close>

definition create_main ::
  "pystr option \<Rightarrow> pystr option \<Rightarrow> pystr option \<Rightarrow> input_file \<Rightarrow> (pystr \<Rightarrow> http_result) \<Rightarrow>
     (outcome \<times> event list) option" where
  "create_main PROJECT_REF MANAGEMENT_KEY TABLE_NAME file api =
     (case setting PROJECT_REF of Inl e \<Rightarrow> Some (Raised e, []) | Inr project_ref \<Rightarrow>
      case setting MANAGEMENT_KEY of Inl e \<Rightarrow> Some (Raised e, []) | Inr management_key \<Rightarrow>
      case setting TABLE_NAME of Inl e \<Rightarrow> Some (Raised e, []) | Inr table_name \<Rightarrow>
      case load_rows file of
        (Inl e, ev) \<Rightarrow> Some (Raised e, ev)
      | (Inr rows, ev) \<Rightarrow>
          if rows = [] then Some (Exit 0, ev @ [Stdout EmptyInput])
          else
            let before = length rows;
                rows = filter_rows rows;
                ev = ev @ [Stdout (Filtered before (length rows))]
            in case rows of
                 [] \<Rightarrow> Some (Exit 0, ev @ [Stdout NothingLeft])
               | first # _ \<Rightarrow>
                   let original_headers = map fst first in
                   case build_column_map original_headers of
                     None \<Rightarrow> None
                   | Some (Inl e) \<Rightarrow> Some (Raised e, ev)
                   | Some (Inr col_map) \<Rightarrow>
                       let sanitized_names = map snd col_map;
                           report = map (\<lambda>(orig, san). (orig, san, py_lower (py_strip orig) \<noteq> san))
                                      col_map;
                           ev = ev @ [Stdout (MappingReport table_name (length sanitized_names)
                                        (length rows) report)];
                           value_rows = rows_to_values rows original_headers;
                           sql = build_full_sql table_name sanitized_names
                                   (map (map (map_option PyStr)) value_rows);
                           ev = ev @ [Stdout Sending]
                       in case run_query project_ref management_key api sql of
                            (Inl e, ev') \<Rightarrow> Some (Raised e, ev @ ev')
                          | (Inr _, ev') \<Rightarrow>
                              Some (Returned,
                                    ev @ ev' @ [Stdout (Inserted (length value_rows) table_name)]))"

section \<open>The upsert script\<close>

text \<open>\<open>d[key] = value\<close> on a dict: a present key keeps its place and takes the value.\<close>

fun dict_set :: "row \<Rightarrow> pystr \<Rightarrow> pystr \<Rightarrow> row" where
  "dict_set [] key val = [(key, val)]"
| "dict_set ((k, v) # items) key val =
     (if k = key then (k, val) # items else (k, v) # dict_set items key val)"

definition apply_column_map :: "row list \<Rightarrow> (pystr \<times> pystr) list \<Rightarrow> row list" where
  "apply_column_map rows col_map =
     map (\<lambda>row. foldl (\<lambda>new_row (key, val). dict_set new_row (py_get col_map key key) val) [] row)
       rows"

text \<open>
  \<open>col_map = json.loads(COLUMN_MAP_RAW)\<close> followed by \<open>apply_column_map(rows, col_map)\<close>. A
  value that is not an object has no \<open>get\<close>, which is called once per item of a row.
\<close>

definition map_rows :: "row list \<Rightarrow> column_map_json \<Rightarrow> error + row list" where
  "map_rows rows column_map =
     (case column_map of
        BadJson \<Rightarrow> Inl JSONDecodeError
      | NotADict \<Rightarrow> if list_all (\<lambda>row. row = []) rows then Inr rows else Inl AttributeError
      | Dict col_map \<Rightarrow> Inr (apply_column_map rows col_map))"

text \<open>\<open>get_client\<close>; \<open>client_ok\<close> tells whether \<open>create_client\<close> accepts the URL and key.\<close>

definition get_client ::
  "pystr option \<Rightarrow> pystr option \<Rightarrow> bool \<Rightarrow> (error + unit) \<times> event list" where
  "get_client SUPABASE_URL SUPABASE_KEY client_ok =
     (case (setting SUPABASE_URL, setting SUPABASE_KEY) of
        (Inr url, Inr key) \<Rightarrow>
          if client_ok then (Inr (), [CreateClient url key])
          else (Inl ClientError, [CreateClient url key])
      | _ \<Rightarrow> (Inl ValueError, []))"

text \<open>\<open>upsert_rows\<close>: the response's row count, or \<open>None\<close> when there was nothing to send.\<close>

definition upsert_rows ::
  "pystr \<Rightarrow> pystr \<Rightarrow> upsert_result \<Rightarrow> row list \<Rightarrow> (error + nat option) \<times> event list" where
  "upsert_rows table_name pk_column db rows =
     (if rows = [] then (Inr None, [Stdout NoRows])
      else case db of
             ApiFailure \<Rightarrow> (Inl APIError, [UpsertCall table_name pk_column rows])
           | Affected n \<Rightarrow> (Inr (Some n), [UpsertCall table_name pk_column rows]))"

text \<open>
  \<open>main\<close> of \<open>upsert_to_supabase.py\<close>. Iterating a truthy value that is not an array raises
  \<open>TypeError\<close> (a number) or \<open>AttributeError\<close> (a string or an object, whose elements have no
  \<open>items\<close>).
\<close>

definition upsert_main ::
  "pystr option \<Rightarrow> pystr option \<Rightarrow> pystr option \<Rightarrow> pystr option \<Rightarrow> column_map_json \<Rightarrow>
     input_file \<Rightarrow> bool \<Rightarrow> upsert_result \<Rightarrow> outcome \<times> event list" where
  "upsert_main SUPABASE_URL SUPABASE_KEY TABLE_NAME PK_COLUMN column_map file client_ok db =
     (case (setting TABLE_NAME, setting PK_COLUMN) of
        (Inr table_name, Inr pk_column) \<Rightarrow>
          (case file of
             Missing \<Rightarrow> (Raised FileNotFoundError, [InputExists])
           | Malformed \<Rightarrow> (Raised JSONDecodeError, [InputExists, InputRead])
           | NotAList Falsy \<Rightarrow> (Returned, [InputExists, InputRead, Stdout NothingToUpsert])
           | NotAList other \<Rightarrow>
               (case column_map of
                  BadJson \<Rightarrow> (Raised JSONDecodeError, [InputExists, InputRead])
                | _ \<Rightarrow> (Raised (if other = TruthyNumber then TypeError else AttributeError),
                         [InputExists, InputRead]))
           | Rows rows \<Rightarrow>
               if rows = [] then (Returned, [InputExists, InputRead, Stdout NothingToUpsert])
               else
                 (case map_rows rows column_map of
                    Inl e \<Rightarrow> (Raised e, [InputExists, InputRead])
                  | Inr mapped_rows \<Rightarrow>
                      let ev = [InputExists, InputRead, Stdout (Mapped (length mapped_rows))]
                      in case get_client SUPABASE_URL SUPABASE_KEY client_ok of
                           (Inl e, ev') \<Rightarrow> (Raised e, ev @ ev')
                         | (Inr _, ev') \<Rightarrow>
                             let ev = ev @ ev' @ [Stdout (Upserting table_name pk_column)] in
                             case upsert_rows table_name pk_column db mapped_rows of
                               (Inl e, ev') \<Rightarrow> (Raised e, ev @ ev')
                             | (Inr None, ev') \<Rightarrow> (Raised AttributeError, ev @ ev')
                             | (Inr (Some n), ev') \<Rightarrow> (Returned, ev @ ev' @ [Stdout (Done n)])))
      | _ \<Rightarrow> (Raised ValueError, []))"

text \<open>The two rows of the specification's filtering example.\<close>

definition john_doe :: row where
  "john_doe = [(u ''given_name'', u ''John''), (u ''family_name'', u ''Doe''),
               (u ''email_address'', []), (u ''phone_number'', [])]"

definition a_b :: row where
  "a_b = [(u ''given_name'', u ''A''), (u ''family_name'', u ''B''),
          (u ''email_address'', u ''a@b.com''), (u ''phone_number'', [])]"

text \<open>
  Further rows: a test identity with padding and capitals and an email address; the other
  test identity with a trailing tab; a row whose contacts are a run of spaces and a tab; a
  row with a denylisted given name only, a phone number and no email key.
\<close>

definition padded_john :: row where
  "padded_john = [(u ''given_name'', u ''  John ''), (u ''family_name'', u ''DOE''),
                  (u ''email_address'', u ''j@x.com''), (u ''phone_number'', [])]"

definition test_subject :: row where
  "test_subject = [(u ''given_name'', u ''Test''), (u ''family_name'', u ''Subject'' @ [9]),
                   (u ''email_address'', u ''t@x.com''), (u ''phone_number'', u ''555'')]"

definition blank_contacts :: row where
  "blank_contacts = [(u ''given_name'', u ''Ann''), (u ''family_name'', u ''Lee''),
                     (u ''email_address'', u ''   ''), (u ''phone_number'', [9])]"

definition john_smith :: row where
  "john_smith = [(u ''given_name'', u ''John''), (u ''family_name'', u ''Smith''),
                 (u ''phone_number'', u '' 555 '')]"

section \<open>The sanitizer's results\<close>

lemmas sanitize_defs =
  sanitize_column_name_def u_def py_strip_def py_isspace_def py_lower_def lower_cp_def
  sub_non_ident_def ident_char_def lstrip_underscores_def py_isdigit_def

lemma unnamed_codepoints: "u ''_unnamed'' = [95, 117, 110, 110, 97, 109, 101, 100]"
  by (simp add: u_def)

lemma col_codepoints: "u ''col_'' = [99, 111, 108, 95]"
  by (simp add: u_def)

lemma set_collapse_underscores: "set (collapse_underscores s) \<subseteq> set s"
proof (induction s rule: collapse_underscores.induct)
  case 1
  show ?case by simp
next
  case (2 c cs)
  have "set (dropWhile (\<lambda>d. d = 95) cs) \<subseteq> set cs"
    by (auto dest: set_dropWhileD)
  with 2 show ?case by auto
qed

lemma ident_sub_non_ident: "c \<in> set (sub_non_ident s) \<Longrightarrow> ident_char c"
  by (auto simp: sub_non_ident_def ident_char_def)

lemma ident_cleaned:
  assumes "c \<in> set (lstrip_underscores (collapse_underscores (sub_non_ident s)))"
  shows "ident_char c"
proof -
  from assms have "c \<in> set (collapse_underscores (sub_non_ident s))"
    unfolding lstrip_underscores_def by (rule set_dropWhileD)
  with set_collapse_underscores have "c \<in> set (sub_non_ident s)" by blast
  then show ?thesis by (rule ident_sub_non_ident)
qed

lemma lstrip_head: "lstrip_underscores s = c # cs \<Longrightarrow> c \<noteq> 95"
  unfolding lstrip_underscores_def using hd_dropWhile [of "\<lambda>c. c = 95" s] by auto

text \<open>The two shapes of a result: the placeholder, or a cleaned name cut to 63 characters.\<close>

lemma sanitize_cases:
  obtains (placeholder) "sanitize_column_name raw = u ''_unnamed''"
  | (named) c cs where
      "lstrip_underscores (collapse_underscores (sub_non_ident (py_lower (py_strip raw)))) = c # cs"
      "sanitize_column_name raw = take 63 (if py_isdigit c then u ''col_'' @ c # cs else c # cs)"
proof (cases "py_strip raw = []")
  case True
  then have "sanitize_column_name raw = u ''_unnamed''"
    by (simp add: sanitize_column_name_def)
  then show ?thesis by (rule placeholder)
next
  case False
  show ?thesis
  proof (cases "lstrip_underscores (collapse_underscores (sub_non_ident (py_lower (py_strip raw))))")
    case Nil
    with False have "sanitize_column_name raw = u ''_unnamed''"
      by (simp add: sanitize_column_name_def)
    then show ?thesis by (rule placeholder)
  next
    case (Cons c cs)
    with False
    have "sanitize_column_name raw = take 63 (if py_isdigit c then u ''col_'' @ c # cs else c # cs)"
      by (simp add: sanitize_column_name_def)
    with Cons show ?thesis by (rule named)
  qed
qed

lemma sanitize_length: "length (sanitize_column_name raw) \<le> 63"
  by (cases raw rule: sanitize_cases) (simp_all add: unnamed_codepoints)

lemma sanitize_nonempty: "sanitize_column_name raw \<noteq> []"
  by (cases raw rule: sanitize_cases) (simp_all add: unnamed_codepoints col_codepoints)

lemma sanitize_ident: "c \<in> set (sanitize_column_name raw) \<Longrightarrow> ident_char c"
proof (cases raw rule: sanitize_cases)
  case placeholder
  assume "c \<in> set (sanitize_column_name raw)"
  with placeholder show ?thesis by (auto simp: unnamed_codepoints ident_char_def)
next
  case (named d ds)
  assume "c \<in> set (sanitize_column_name raw)"
  with named(2) have "c \<in> set (u ''col_'') \<or> c \<in> set (d # ds)"
    by (auto dest!: in_set_takeD split: if_splits)
  then show ?thesis
  proof
    assume "c \<in> set (u ''col_'')"
    then show ?thesis by (auto simp: col_codepoints ident_char_def)
  next
    assume "c \<in> set (d # ds)"
    with named(1) show ?thesis using ident_cleaned by metis
  qed
qed

lemma sanitize_head:
  "\<not> py_isdigit (hd (sanitize_column_name raw)) \<and>
   (hd (sanitize_column_name raw) = 95 \<longrightarrow> sanitize_column_name raw = u ''_unnamed'')"
proof (cases raw rule: sanitize_cases)
  case placeholder
  then show ?thesis by (simp add: unnamed_codepoints py_isdigit_def)
next
  case (named c cs)
  from named(1) have "c \<noteq> 95" by (rule lstrip_head)
  with named(2) show ?thesis
    by (auto simp: col_codepoints py_isdigit_def)
qed

lemma dropWhile_keeps: "x \<in> set xs \<Longrightarrow> \<not> P x \<Longrightarrow> x \<in> set (dropWhile P xs)"
  by (induction xs) auto

lemma strip_keeps:
  assumes "c \<in> set s" and "\<not> py_isspace c"
  shows "c \<in> set (py_strip s)"
proof -
  from assms have "c \<in> set (dropWhile py_isspace s)" by (rule dropWhile_keeps)
  then have "c \<in> set (rev (dropWhile py_isspace s))" by simp
  then have "c \<in> set (dropWhile py_isspace (rev (dropWhile py_isspace s)))"
    using assms(2) by (rule dropWhile_keeps)
  then show ?thesis by (simp add: py_strip_def)
qed

lemma set_strip: "set (py_strip s) \<subseteq> set s"
proof
  fix c assume "c \<in> set (py_strip s)"
  then have "c \<in> set (dropWhile py_isspace (rev (dropWhile py_isspace s)))"
    by (simp add: py_strip_def)
  then have "c \<in> set (rev (dropWhile py_isspace s))" by (rule set_dropWhileD)
  then have "c \<in> set (dropWhile py_isspace s)" by simp
  then show "c \<in> set s" by (rule set_dropWhileD)
qed

lemma collapse_keeps: "c \<in> set s \<Longrightarrow> c \<in> set (collapse_underscores s)"
proof (induction s rule: collapse_underscores.induct)
  case 1
  then show ?case by simp
next
  case (2 d ds)
  show ?case
  proof (cases "d = 95")
    case True
    show ?thesis
    proof (cases "c = 95")
      case c: True
      with True show ?thesis by simp
    next
      case False
      with "2.prems" True have "c \<in> set ds" by auto
      with False have "c \<in> set (dropWhile (\<lambda>d. d = 95) ds)" by (intro dropWhile_keeps) auto
      with "2.IH"(1) True show ?thesis by simp
    qed
  next
    case False
    with "2.prems" "2.IH"(2) show ?thesis by auto
  qed
qed

lemma letter_not_space: "letter_or_digit c \<Longrightarrow> \<not> py_isspace c"
  by (auto simp: letter_or_digit_def py_isspace_def)

lemma letter_lowers:
  assumes "letter_or_digit c"
  shows "\<exists>d \<in> set (lower_cp c). ident_char d \<and> d \<noteq> 95"
  using assms by (auto simp: letter_or_digit_def lower_cp_def ident_char_def)

lemma other_lowers:
  assumes "\<not> letter_or_digit c"
  shows "lower_cp c = [c] \<and> (ident_char c \<longrightarrow> c = 95)"
  using assms by (auto simp: letter_or_digit_def lower_cp_def ident_char_def)

lemma cleaned_nonempty:
  assumes "c \<in> set raw" and "letter_or_digit c"
  shows "py_strip raw \<noteq> [] \<and>
         lstrip_underscores (collapse_underscores (sub_non_ident (py_lower (py_strip raw)))) \<noteq> []"
proof -
  from assms have c: "c \<in> set (py_strip raw)"
    by (intro strip_keeps letter_not_space)
  from letter_lowers [OF assms(2)] obtain d where d: "d \<in> set (lower_cp c)"
    and id: "ident_char d" and nu: "d \<noteq> 95" by blast
  from c d have "d \<in> set (py_lower (py_strip raw))"
    by (auto simp: py_lower_def)
  with id have "d \<in> set (sub_non_ident (py_lower (py_strip raw)))"
    by (force simp: sub_non_ident_def)
  then have "d \<in> set (collapse_underscores (sub_non_ident (py_lower (py_strip raw))))"
    by (rule collapse_keeps)
  with nu have "d \<in> set (lstrip_underscores
      (collapse_underscores (sub_non_ident (py_lower (py_strip raw)))))"
    unfolding lstrip_underscores_def by (intro dropWhile_keeps) auto
  with c show ?thesis by auto
qed

lemma cleaned_empty:
  assumes "\<forall>c \<in> set raw. \<not> letter_or_digit c"
  shows "lstrip_underscores (collapse_underscores (sub_non_ident (py_lower (py_strip raw)))) = []"
proof -
  have "d = 95" if "d \<in> set (sub_non_ident (py_lower (py_strip raw)))" for d
  proof -
    from that obtain e where e: "e \<in> set (py_lower (py_strip raw))"
      and d: "d = (if ident_char e then e else 95)"
      by (auto simp: sub_non_ident_def)
    from e obtain c where c: "c \<in> set (py_strip raw)" and ec: "e \<in> set (lower_cp c)"
      by (auto simp: py_lower_def)
    from c set_strip have "c \<in> set raw" by blast
    with assms have "\<not> letter_or_digit c" by blast
    from other_lowers [OF this] ec have "e = c" and "ident_char e \<longrightarrow> e = 95" by auto
    with d show ?thesis by auto
  qed
  with set_collapse_underscores
  have "\<forall>d \<in> set (collapse_underscores (sub_non_ident (py_lower (py_strip raw)))). d = 95"
    by blast
  then show ?thesis
    by (simp add: lstrip_underscores_def)
qed

lemma sanitize_named:
  assumes "py_strip raw \<noteq> []"
    and "lstrip_underscores (collapse_underscores (sub_non_ident (py_lower (py_strip raw)))) = c # cs"
  shows "sanitize_column_name raw =
           take 63 (if 48 \<le> c \<and> c \<le> 57 then u ''col_'' @ c # cs else c # cs)"
  using assms by (simp add: sanitize_column_name_def py_isdigit_def Let_def)

lemma sanitize_placeholder_iff:
  "sanitize_column_name raw = u ''_unnamed'' \<longleftrightarrow> (\<forall>c \<in> set raw. \<not> letter_or_digit c)"
proof
  assume all: "\<forall>c \<in> set raw. \<not> letter_or_digit c"
  from cleaned_empty [OF this] show "sanitize_column_name raw = u ''_unnamed''"
    by (simp add: sanitize_column_name_def Let_def)
next
  assume r: "sanitize_column_name raw = u ''_unnamed''"
  show "\<forall>c \<in> set raw. \<not> letter_or_digit c"
  proof (rule ccontr)
    assume "\<not> (\<forall>c \<in> set raw. \<not> letter_or_digit c)"
    then obtain c where "c \<in> set raw" "letter_or_digit c" by blast
    from cleaned_nonempty [OF this] obtain d ds where ne: "py_strip raw \<noteq> []"
      and cl: "lstrip_underscores
                 (collapse_underscores (sub_non_ident (py_lower (py_strip raw)))) = d # ds"
      by (auto simp: neq_Nil_conv)
    from cl have "d \<noteq> 95" by (rule lstrip_head)
    with sanitize_named [OF ne cl] have "hd (sanitize_column_name raw) \<noteq> 95"
      by (auto simp: col_codepoints)
    with r show False by (simp add: unnamed_codepoints)
  qed
qed

lemma dropWhile_snoc_keeps: "\<not> P d \<Longrightarrow> \<exists>ys. dropWhile P (xs @ [d]) = ys @ [d]"
  by (induction xs) auto

lemma strip_digit_first:
  assumes "48 \<le> d" and "d \<le> 57"
  shows "\<exists>t. py_strip (d # rest) = d # t"
proof -
  from assms have ns: "\<not> py_isspace d" by (simp add: py_isspace_def)
  then have "dropWhile py_isspace (d # rest) = d # rest" by simp
  moreover from dropWhile_snoc_keeps [of py_isspace d "rev rest", OF ns]
  obtain ys where "dropWhile py_isspace (rev rest @ [d]) = ys @ [d]" by blast
  ultimately have "py_strip (d # rest) = d # rev ys" by (simp add: py_strip_def)
  then show ?thesis by blast
qed

lemma sanitize_digit_first:
  assumes "48 \<le> d" and "d \<le> 57"
  shows "take 5 (sanitize_column_name (d # rest)) = u ''col_'' @ [d]"
proof -
  from strip_digit_first [OF assms] obtain t where t: "py_strip (d # rest) = d # t" by blast
  from assms have low: "lower_cp d = [d]" by (simp add: lower_cp_def)
  from assms have id: "ident_char d" by (simp add: ident_char_def)
  from assms have nu: "d \<noteq> 95" by simp
  let ?cs = "collapse_underscores (sub_non_ident (py_lower t))"
  from t low id nu have
    "lstrip_underscores (collapse_underscores (sub_non_ident (py_lower (py_strip (d # rest)))))
       = d # ?cs"
    by (simp add: py_lower_def sub_non_ident_def lstrip_underscores_def)
  moreover from t have "py_strip (d # rest) \<noteq> []" by simp
  ultimately have "sanitize_column_name (d # rest) = take 63 (u ''col_'' @ d # ?cs)"
    using assms by (simp add: sanitize_named)
  then show ?thesis by (simp add: col_codepoints)
qed

lemma sanitize_examples:
  "sanitize_column_name [] = u ''_unnamed''"
  "sanitize_column_name (u ''   '') = u ''_unnamed''"
  "sanitize_column_name (u ''!!!'') = u ''_unnamed''"
  "sanitize_column_name (u ''Full Name'') = u ''full_name''"
  "sanitize_column_name (u ''2024 Sales'') = u ''col_2024_sales''"
  "sanitize_column_name (u '' __9 Lives!! '') = u ''col_9_lives_''"
  by (simp_all add: sanitize_defs)

lemma cleaned_of_empty:
  assumes "lstrip_underscores (collapse_underscores (sub_non_ident (py_lower (py_strip raw))))
             = c # cs"
  shows "py_strip raw \<noteq> []"
proof
  assume "py_strip raw = []"
  then have "lstrip_underscores (collapse_underscores (sub_non_ident (py_lower (py_strip raw))))
      = []"
    by (simp add: py_lower_def sub_non_ident_def lstrip_underscores_def)
  with assms show False by simp
qed

text \<open>
  C2, as amended. For every input string the sanitizer returns a non-empty string of at most
  63 characters, all of them lowercase letters, digits or underscores, whose first character
  is never a digit and is an underscore only when the result is the placeholder
  \<open>_unnamed\<close>. The placeholder is returned exactly for the headers that hold no letter and
  no digit, which are the headers empty after trimming or after cleaning. A header that
  starts with a digit gets a result that starts with \<open>col_\<close> and that digit; in general a
  cleaned name that starts with a digit is returned with \<open>col_\<close> in front of it, and any
  other cleaned name as it is, both cut to 63 characters. The function has no failing
  branch: its one indexed read follows the return on an empty name. The empty header, a
  blank one and \<open>!!!\<close> give \<open>_unnamed\<close>, \<open>Full Name\<close> gives \<open>full_name\<close> and \<open>2024 Sales\<close>
  gives \<open>col_2024_sales\<close>.
\<close>

theorem sanitize_column_name_shape:
  "length (sanitize_column_name raw) \<le> 63 \<and>
   (\<forall>c \<in> set (sanitize_column_name raw).
      (97 \<le> c \<and> c \<le> 122) \<or> (48 \<le> c \<and> c \<le> 57) \<or> c = 95) \<and>
   sanitize_column_name raw \<noteq> [] \<and>
   \<not> (48 \<le> hd (sanitize_column_name raw) \<and> hd (sanitize_column_name raw) \<le> 57) \<and>
   (hd (sanitize_column_name raw) = 95 \<longrightarrow> sanitize_column_name raw = u ''_unnamed'') \<and>
   (sanitize_column_name raw = u ''_unnamed'') = (\<forall>c \<in> set raw. \<not> letter_or_digit c) \<and>
   (py_strip raw = [] \<or>
    lstrip_underscores (collapse_underscores (sub_non_ident (py_lower (py_strip raw)))) = []
      \<longrightarrow> sanitize_column_name raw = u ''_unnamed'') \<and>
   (\<forall>d rest. raw = d # rest \<and> 48 \<le> d \<and> d \<le> 57 \<longrightarrow>
      take 5 (sanitize_column_name raw) = u ''col_'' @ [d]) \<and>
   (\<forall>c cs.
      lstrip_underscores (collapse_underscores (sub_non_ident (py_lower (py_strip raw))))
        = c # cs \<longrightarrow>
      sanitize_column_name raw =
        take 63 (if 48 \<le> c \<and> c \<le> 57 then u ''col_'' @ c # cs else c # cs)) \<and>
   sanitize_column_name [] = u ''_unnamed'' \<and>
   sanitize_column_name (u ''   '') = u ''_unnamed'' \<and>
   sanitize_column_name (u ''!!!'') = u ''_unnamed'' \<and>
   sanitize_column_name (u ''Full Name'') = u ''full_name'' \<and>
   sanitize_column_name (u ''2024 Sales'') = u ''col_2024_sales'' \<and>
   sanitize_column_name (u '' __9 Lives!! '') = u ''col_9_lives_''"
proof (intro conjI)
  show "length (sanitize_column_name raw) \<le> 63" by (rule sanitize_length)
  show "\<forall>c \<in> set (sanitize_column_name raw).
      (97 \<le> c \<and> c \<le> 122) \<or> (48 \<le> c \<and> c \<le> 57) \<or> c = 95"
    using sanitize_ident [of _ raw] by (auto simp: ident_char_def)
  show "sanitize_column_name raw \<noteq> []" by (rule sanitize_nonempty)
  show "\<not> (48 \<le> hd (sanitize_column_name raw) \<and> hd (sanitize_column_name raw) \<le> 57)"
    using sanitize_head [of raw] by (simp add: py_isdigit_def)
  show "hd (sanitize_column_name raw) = 95 \<longrightarrow> sanitize_column_name raw = u ''_unnamed''"
    using sanitize_head [of raw] by blast
  show "(sanitize_column_name raw = u ''_unnamed'') = (\<forall>c \<in> set raw. \<not> letter_or_digit c)"
    by (rule sanitize_placeholder_iff)
  show "py_strip raw = [] \<or>
    lstrip_underscores (collapse_underscores (sub_non_ident (py_lower (py_strip raw)))) = []
      \<longrightarrow> sanitize_column_name raw = u ''_unnamed''"
    by (auto simp: sanitize_column_name_def Let_def)
  show "\<forall>d rest. raw = d # rest \<and> 48 \<le> d \<and> d \<le> 57 \<longrightarrow>
      take 5 (sanitize_column_name raw) = u ''col_'' @ [d]"
    using sanitize_digit_first by blast
  show "\<forall>c cs.
      lstrip_underscores (collapse_underscores (sub_non_ident (py_lower (py_strip raw))))
        = c # cs \<longrightarrow>
      sanitize_column_name raw =
        take 63 (if 48 \<le> c \<and> c \<le> 57 then u ''col_'' @ c # cs else c # cs)"
    using sanitize_named cleaned_of_empty by blast
qed (rule sanitize_examples)+

theorem sanitize_column_name_shape_witness:
  "hd (sanitize_column_name (u ''!!!'')) = 95 \<and>
   sanitize_column_name (u ''!!!'') = u ''_unnamed'' \<and>
   length (sanitize_column_name (u ''!!!'')) \<le> 63 \<and>
   take 5 (sanitize_column_name (u ''2024 Sales'')) = u ''col_2''"
proof -
  have h: "hd (sanitize_column_name (u ''!!!'')) = 95"
    by (simp add: sanitize_defs)
  have r: "u ''2024 Sales'' = 50 # u ''024 Sales''" "(48::nat) \<le> 50" "(50::nat) \<le> 57"
    by (simp_all add: u_def)
  have c: "u ''col_'' @ [50] = u ''col_2''" by (simp add: u_def)
  have "take 5 (sanitize_column_name (u ''2024 Sales'')) = u ''col_'' @ [50]"
    using sanitize_column_name_shape [of "u ''2024 Sales''"] r by blast
  with c have p: "take 5 (sanitize_column_name (u ''2024 Sales'')) = u ''col_2''" by simp
  from h p sanitize_column_name_shape [of "u ''!!!''"] show ?thesis by blast
qed

text \<open>
  C2 as stated fails: on the empty header the result is the placeholder, which starts with an
  underscore.
\<close>

theorem sanitize_column_name_underscore_counterexample:
  "sanitize_column_name [] = u ''_unnamed'' \<and> hd (sanitize_column_name []) = of_char CHR ''_''"
  by (simp add: sanitize_defs)

section \<open>The column mapping's results\<close>

lemma while_candidate_result:
  assumes "while_candidate seen base candidate = Some r"
  shows "\<forall>n. seen base = Some n \<and> candidate = candidate_name base n \<longrightarrow>
     (\<exists>k\<ge>n. r = Inr (seen(base \<mapsto> k), candidate_name base k) \<and>
        seen (candidate_name base k) = None \<and>
        (\<forall>m. n \<le> m \<and> m < k \<longrightarrow> seen (candidate_name base m) \<noteq> None))"
proof (rule while_candidate.raw_induct
    [where P = "\<lambda>seen base candidate r.
       \<forall>n. seen base = Some n \<and> candidate = candidate_name base n \<longrightarrow>
         (\<exists>k\<ge>n. r = Inr (seen(base \<mapsto> k), candidate_name base k) \<and>
            seen (candidate_name base k) = None \<and>
            (\<forall>m. n \<le> m \<and> m < k \<longrightarrow> seen (candidate_name base m) \<noteq> None))",
      OF _ assms])
  fix wc :: "seen_dict \<Rightarrow> pystr \<Rightarrow> pystr \<Rightarrow> (error + seen_dict \<times> pystr) option"
  fix seen base candidate r
  assume IH: "\<And>seen base candidate r. wc seen base candidate = Some r \<Longrightarrow>
     \<forall>n. seen base = Some n \<and> candidate = candidate_name base n \<longrightarrow>
       (\<exists>k\<ge>n. r = Inr (seen(base \<mapsto> k), candidate_name base k) \<and>
          seen (candidate_name base k) = None \<and>
          (\<forall>m. n \<le> m \<and> m < k \<longrightarrow> seen (candidate_name base m) \<noteq> None))"
  assume body: "(if seen candidate \<noteq> None
      then case seen base of None \<Rightarrow> Some (Inl KeyError)
           | Some n \<Rightarrow> wc (seen(base \<mapsto> n + 1)) base (candidate_name base (n + 1))
      else Some (Inr (seen, candidate))) = Some r"
  show "\<forall>n. seen base = Some n \<and> candidate = candidate_name base n \<longrightarrow>
     (\<exists>k\<ge>n. r = Inr (seen(base \<mapsto> k), candidate_name base k) \<and>
        seen (candidate_name base k) = None \<and>
        (\<forall>m. n \<le> m \<and> m < k \<longrightarrow> seen (candidate_name base m) \<noteq> None))"
  proof (intro allI impI, elim conjE)
    fix n
    assume sb: "seen base = Some n" and cand: "candidate = candidate_name base n"
    show "\<exists>k\<ge>n. r = Inr (seen(base \<mapsto> k), candidate_name base k) \<and>
        seen (candidate_name base k) = None \<and>
        (\<forall>m. n \<le> m \<and> m < k \<longrightarrow> seen (candidate_name base m) \<noteq> None)"
    proof (cases "seen candidate = None")
      case True
      with body have r: "r = Inr (seen, candidate)" by simp
      from sb have "seen(base \<mapsto> n) = seen" by (rule map_upd_triv)
      with r True cand show ?thesis by (intro exI [of _ n]) auto
    next
      case False
      with body sb have call:
        "wc (seen(base \<mapsto> n + 1)) base (candidate_name base (n + 1)) = Some r"
        by simp
      from IH [OF call] obtain k where k: "n + 1 \<le> k"
        and r: "r = Inr (seen(base \<mapsto> n + 1, base \<mapsto> k), candidate_name base k)"
        and fresh: "(seen(base \<mapsto> n + 1)) (candidate_name base k) = None"
        and below: "\<forall>m. n + 1 \<le> m \<and> m < k \<longrightarrow>
                      (seen(base \<mapsto> n + 1)) (candidate_name base m) \<noteq> None"
        by auto
      from fresh have f: "seen (candidate_name base k) = None"
        by (simp split: if_splits)
      have b: "seen (candidate_name base m) \<noteq> None" if "n \<le> m" "m < k" for m
      proof (cases "m = n")
        case True
        with False cand show ?thesis by simp
      next
        case False
        with that below have "(seen(base \<mapsto> n + 1)) (candidate_name base m) \<noteq> None"
          by simp
        with sb show ?thesis by (auto split: if_splits)
      qed
      from k have "n \<le> k" by simp
      moreover from r have "r = Inr (seen(base \<mapsto> k), candidate_name base k)" by simp
      ultimately show ?thesis using f b by blast
    qed
  qed
qed

lemma while_candidate_stuck:
  assumes "while_candidate seen base candidate = Some r"
  shows "\<not> (length base = 63 \<and> candidate = base \<and> seen base \<noteq> None)"
proof (rule while_candidate.raw_induct
    [where P = "\<lambda>seen base candidate r. \<not> (length base = 63 \<and> candidate = base \<and> seen base \<noteq> None)",
      OF _ assms])
  fix wc :: "seen_dict \<Rightarrow> pystr \<Rightarrow> pystr \<Rightarrow> (error + seen_dict \<times> pystr) option"
  fix seen base candidate r
  assume IH: "\<And>seen base candidate r. wc seen base candidate = Some r \<Longrightarrow>
                \<not> (length base = 63 \<and> candidate = base \<and> seen base \<noteq> None)"
  assume body: "(if seen candidate \<noteq> None
      then case seen base of None \<Rightarrow> Some (Inl KeyError)
           | Some n \<Rightarrow> wc (seen(base \<mapsto> n + 1)) base (candidate_name base (n + 1))
      else Some (Inr (seen, candidate))) = Some r"
  show "\<not> (length base = 63 \<and> candidate = base \<and> seen base \<noteq> None)"
  proof
    assume a: "length base = 63 \<and> candidate = base \<and> seen base \<noteq> None"
    then obtain n where n: "seen base = Some n" by auto
    from a have c: "candidate_name base (n + 1) = base"
      by (simp add: candidate_name_def)
    from body a n c have "wc (seen(base \<mapsto> n + 1)) base base = Some r" by simp
    from IH [OF this] a show False by simp
  qed
qed


lemma spec_naming_append:
  "i < length cm \<Longrightarrow> spec_naming (cm @ xs) i = spec_naming cm i"
  by (simp add: spec_naming_def nth_append)

lemma spec_naming_last:
  "spec_naming (cm @ [(h, name)]) (length cm) \<longleftrightarrow>
     (let base = sanitize_column_name h;
          assigned = insert (u ''id'') (set (map snd cm))
      in name \<notin> assigned \<and>
         (if base \<in> assigned
          then \<exists>n\<ge>2. name = candidate_name base n \<and>
                 (\<forall>m. 2 \<le> m \<and> m < n \<longrightarrow> candidate_name base m \<in> assigned)
          else name = base))"
  by (simp add: spec_naming_def)

lemma spec_naming_snoc:
  assumes "\<forall>i<length cm. spec_naming cm i" and "spec_naming (cm @ [x]) (length cm)"
  shows "\<forall>i<length (cm @ [x]). spec_naming (cm @ [x]) i"
proof (intro allI impI)
  fix i assume "i < length (cm @ [x])"
  then consider "i < length cm" | "i = length cm" by fastforce
  then show "spec_naming (cm @ [x]) i"
  proof cases
    case 1
    with assms(1) show ?thesis by (simp add: spec_naming_append)
  next
    case 2
    with assms(2) show ?thesis by simp
  qed
qed

lemma loop_inv_init: "loop_inv [u ''id'' \<mapsto> 1] []"
  by (auto simp: loop_inv_def counters_ok_def)

lemma loop_inv_fresh:
  assumes inv: "loop_inv seen result" and none: "seen (sanitize_column_name h) = None"
  shows "loop_inv (seen(sanitize_column_name h \<mapsto> 1)) (result @ [(h, sanitize_column_name h)])"
proof -
  let ?b = "sanitize_column_name h"
  from inv have d: "dom seen = insert (u ''id'') (set (map snd result))"
    and c: "counters_ok seen" and s: "\<forall>i<length result. spec_naming result i"
    by (simp_all add: loop_inv_def)
  from none have nb: "?b \<notin> dom seen" by auto
  have d': "dom (seen(?b \<mapsto> 1)) = insert (u ''id'') (set (map snd (result @ [(h, ?b)])))"
    using d by auto
  have c': "counters_ok (seen(?b \<mapsto> 1))"
    using c unfolding counters_ok_def by (auto split: if_splits)
  from nb d have "spec_naming (result @ [(h, ?b)]) (length result)"
    by (simp add: spec_naming_last Let_def)
  with s have "\<forall>i<length (result @ [(h, ?b)]). spec_naming (result @ [(h, ?b)]) i"
    by (rule spec_naming_snoc)
  with d' c' show ?thesis unfolding loop_inv_def by blast
qed

lemma loop_inv_renamed:
  assumes inv: "loop_inv seen result" and some: "seen (sanitize_column_name h) = Some n"
    and k: "n + 1 \<le> k"
    and fresh: "seen (candidate_name (sanitize_column_name h) k) = None"
    and below: "\<forall>m. n + 1 \<le> m \<and> m < k \<longrightarrow>
                  seen (candidate_name (sanitize_column_name h) m) \<noteq> None"
  shows "loop_inv (seen(sanitize_column_name h \<mapsto> k,
                     candidate_name (sanitize_column_name h) k \<mapsto> 1))
           (result @ [(h, candidate_name (sanitize_column_name h) k)])"
proof -
  let ?b = "sanitize_column_name h"
  let ?c = "candidate_name ?b k"
  let ?seen = "seen(?b \<mapsto> k, ?c \<mapsto> 1)"
  from inv have d: "dom seen = insert (u ''id'') (set (map snd result))"
    and c: "counters_ok seen" and s: "\<forall>i<length result. spec_naming result i"
    by (simp_all add: loop_inv_def)
  from some have bd: "?b \<in> dom seen" by auto
  from fresh have cd: "?c \<notin> dom seen" by auto
  from c some have n1: "1 \<le> n"
    and old: "\<forall>m. 2 \<le> m \<and> m \<le> n \<longrightarrow> candidate_name ?b m \<in> dom seen"
    unfolding counters_ok_def by blast+
  have tried: "candidate_name ?b m \<in> dom seen" if "2 \<le> m" "m < k" for m
  proof (cases "m \<le> n")
    case True
    with that old show ?thesis by blast
  next
    case False
    with that below have "seen (candidate_name ?b m) \<noteq> None" by simp
    then show ?thesis by auto
  qed
  have dom': "dom ?seen = insert ?c (dom seen)"
    using bd by auto
  then have d': "dom ?seen = insert (u ''id'') (set (map snd (result @ [(h, ?c)])))"
    using d by auto
  from dom' have sub: "dom seen \<subseteq> dom ?seen" by blast
  have c': "counters_ok ?seen"
    unfolding counters_ok_def
  proof (intro allI impI)
    fix b j assume bj: "?seen b = Some j"
    show "1 \<le> j \<and> (\<forall>m. 2 \<le> m \<and> m \<le> j \<longrightarrow> candidate_name b m \<in> dom ?seen)"
    proof (cases "b = ?c")
      case True
      with bj show ?thesis by auto
    next
      case nc: False
      show ?thesis
      proof (cases "b = ?b")
        case True
        with bj nc have jk: "j = k" by simp
        from n1 k have k1: "1 \<le> k" by simp
        have "candidate_name ?b m \<in> dom ?seen" if "2 \<le> m" "m \<le> k" for m
        proof (cases "m = k")
          case True
          then show ?thesis by simp
        next
          case False
          with that have "candidate_name ?b m \<in> dom seen" by (simp add: tried)
          with sub show ?thesis by blast
        qed
        with True jk k1 show ?thesis by simp
      next
        case False
        with bj nc have "seen b = Some j" by simp
        with c have "1 \<le> j" and "\<forall>m. 2 \<le> m \<and> m \<le> j \<longrightarrow> candidate_name b m \<in> dom seen"
          unfolding counters_ok_def by blast+
        with sub show ?thesis by blast
      qed
    qed
  qed
  from n1 k have "2 \<le> k" by simp
  with bd cd d tried have "spec_naming (result @ [(h, ?c)]) (length result)"
    unfolding spec_naming_last Let_def by auto
  with s have "\<forall>i<length (result @ [(h, ?c)]). spec_naming (result @ [(h, ?c)]) i"
    by (rule spec_naming_snoc)
  with d' c' show ?thesis unfolding loop_inv_def by blast
qed


lemma column_loop_inv:
  "loop_inv seen result \<Longrightarrow> column_loop seen result hs = Some r \<Longrightarrow>
   \<exists>cm seen'. r = Inr cm \<and> loop_inv seen' cm \<and> map fst cm = map fst result @ hs"
proof (induction hs arbitrary: seen result)
  case Nil
  then show ?case by auto
next
  case (Cons h hs)
  let ?b = "sanitize_column_name h"
  show ?case
  proof (cases "seen ?b")
    case None
    with Cons.prems(2)
    have run: "column_loop (seen(?b \<mapsto> 1)) (result @ [(h, ?b)]) hs = Some r"
      by (simp add: Let_def)
    from Cons.prems(1) None have "loop_inv (seen(?b \<mapsto> 1)) (result @ [(h, ?b)])"
      by (rule loop_inv_fresh)
    from Cons.IH [OF this run] show ?thesis by simp
  next
    case (Some n)
    let ?s1 = "seen(?b \<mapsto> n + 1)"
    from Cons.prems(2) Some obtain w where
      w: "while_candidate ?s1 ?b (candidate_name ?b (n + 1)) = Some w"
      by (cases "while_candidate ?s1 ?b (candidate_name ?b (n + 1))") (simp_all add: Let_def)
    from while_candidate_result [OF w] obtain k where k: "n + 1 \<le> k"
      and wk: "w = Inr (seen(?b \<mapsto> k), candidate_name ?b k)"
      and fresh1: "?s1 (candidate_name ?b k) = None"
      and below1: "\<forall>m. n + 1 \<le> m \<and> m < k \<longrightarrow> ?s1 (candidate_name ?b m) \<noteq> None"
      by auto
    from fresh1 have fresh: "seen (candidate_name ?b k) = None"
      by (simp split: if_splits)
    have below: "\<forall>m. n + 1 \<le> m \<and> m < k \<longrightarrow> seen (candidate_name ?b m) \<noteq> None"
    proof (intro allI impI)
      fix m assume "n + 1 \<le> m \<and> m < k"
      with below1 have "?s1 (candidate_name ?b m) \<noteq> None" by blast
      with Some show "seen (candidate_name ?b m) \<noteq> None" by (auto split: if_splits)
    qed
    let ?s2 = "seen(?b \<mapsto> k, candidate_name ?b k \<mapsto> 1)"
    let ?res = "result @ [(h, candidate_name ?b k)]"
    from Cons.prems(2) Some w wk have run: "column_loop ?s2 ?res hs = Some r"
      by (simp add: Let_def)
    from Cons.prems(1) Some k fresh below have "loop_inv ?s2 ?res"
      by (rule loop_inv_renamed)
    from Cons.IH [OF this run] show ?thesis by simp
  qed
qed

lemma fresh_distinct:
  "\<forall>i<length xs. xs ! i \<notin> set (take i xs) \<Longrightarrow> distinct xs"
proof (induction xs rule: rev_induct)
  case Nil
  show ?case by simp
next
  case (snoc x xs)
  have "xs ! i \<notin> set (take i xs)" if "i < length xs" for i
  proof -
    from that have "i < length (xs @ [x])" by simp
    with snoc.prems have "(xs @ [x]) ! i \<notin> set (take i (xs @ [x]))" by blast
    with that show ?thesis by (simp add: nth_append)
  qed
  with snoc.IH have d: "distinct xs" by blast
  have "length xs < length (xs @ [x])" by simp
  with snoc.prems have "(xs @ [x]) ! length xs \<notin> set (take (length xs) (xs @ [x]))"
    by blast
  then have "x \<notin> set xs" by simp
  with d show ?case by simp
qed

lemma build_column_map_inv:
  assumes "build_column_map headers = Some r"
  shows "\<exists>cm. r = Inr cm \<and> map fst cm = headers \<and> distinct (map snd cm) \<and>
           u ''id'' \<notin> set (map snd cm) \<and> (\<forall>i<length cm. spec_naming cm i)"
proof -
  from assms have "column_loop [u ''id'' \<mapsto> 1] [] headers = Some r"
    by (simp add: build_column_map_def)
  from column_loop_inv [OF loop_inv_init this] obtain cm seen'
    where r: "r = Inr cm" and inv: "loop_inv seen' cm" and hs: "map fst cm = headers"
    by auto
  from inv have sp: "\<forall>i<length cm. spec_naming cm i" by (simp add: loop_inv_def)
  have fr: "map snd cm ! i \<notin> insert (u ''id'') (set (take i (map snd cm)))"
    if "i < length cm" for i
    using sp that by (simp add: spec_naming_def Let_def)
  then have "\<forall>i<length (map snd cm). map snd cm ! i \<notin> set (take i (map snd cm))"
    by simp
  then have dist: "distinct (map snd cm)" by (rule fresh_distinct)
  have "u ''id'' \<notin> set (map snd cm)"
  proof
    assume "u ''id'' \<in> set (map snd cm)"
    then obtain i where "i < length cm" "map snd cm ! i = u ''id''"
      by (auto simp: in_set_conv_nth)
    with fr [of i] show False by simp
  qed
  with r hs dist sp show ?thesis by blast
qed

lemma build_column_map_hangs:
  assumes same: "sanitize_column_name h2 = sanitize_column_name h1"
    and long: "length (sanitize_column_name h1) = 63"
  shows "build_column_map [h1, h2] = None"
proof -
  let ?b = "sanitize_column_name h1"
  let ?s = "[u ''id'' \<mapsto> 1, ?b \<mapsto> 1, ?b \<mapsto> 1 + 1]"
  from long have ne: "?b \<noteq> u ''id''" by (auto simp: u_def)
  from long have c: "candidate_name ?b (1 + 1) = ?b" by (simp add: candidate_name_def)
  have stuck: "while_candidate ?s ?b ?b = None"
  proof (cases "while_candidate ?s ?b ?b")
    case (Some r)
    from while_candidate_stuck [OF Some] long show ?thesis by simp
  qed simp
  have "build_column_map [h1, h2] =
          column_loop [u ''id'' \<mapsto> 1, ?b \<mapsto> 1] [(h1, ?b)] [h2]"
    using ne by (simp add: build_column_map_def Let_def)
  also have "\<dots> = None"
    using same c stuck by (simp add: Let_def)
  finally show ?thesis .
qed

lemma collapse_no_underscore: "95 \<notin> set s \<Longrightarrow> collapse_underscores s = s"
  by (induction s) simp_all

lemma concat_singletons: "concat (map (\<lambda>c. [c]) s) = s"
  by (induction s) simp_all

lemma sanitize_lowercase:
  assumes low: "\<forall>c\<in>set s. 97 \<le> c \<and> c \<le> 122" and ne: "s \<noteq> []"
  shows "sanitize_column_name s = take 63 s"
proof -
  from ne obtain c cs where s: "s = c # cs" by (cases s) auto
  from low have nsp: "\<forall>c\<in>set s. \<not> py_isspace c"
    by (auto simp: py_isspace_def)
  with s have d1: "dropWhile py_isspace s = s" by simp
  from ne nsp have "\<not> py_isspace (hd (rev s))"
    by (simp add: hd_rev)
  with ne have "dropWhile py_isspace (rev s) = rev s"
    by (cases "rev s") auto
  with d1 have strip: "py_strip s = s"
    by (simp add: py_strip_def)
  from low have "map lower_cp s = map (\<lambda>c. [c]) s"
  proof (intro map_cong refl)
    fix c assume "c \<in> set s"
    with low have "97 \<le> c \<and> c \<le> 122" by simp
    then show "lower_cp c = [c]" by (simp add: lower_cp_def)
  qed
  then have "py_lower s = concat (map (\<lambda>c. [c]) s)"
    by (simp only: py_lower_def)
  then have lower: "py_lower s = s"
    by (simp only: concat_singletons)
  have sub: "sub_non_ident s = s"
    unfolding sub_non_ident_def
  proof (rule map_idI)
    fix c assume "c \<in> set s"
    with low have "ident_char c" by (simp add: ident_char_def)
    then show "(if ident_char c then c else 95) = c" by simp
  qed
  from low have "95 \<notin> set s" by auto
  then have coll: "collapse_underscores s = s" by (rule collapse_no_underscore)
  from low s have "c \<noteq> 95" and dig: "\<not> py_isdigit c" by (auto simp: py_isdigit_def)
  with s have lstrip: "lstrip_underscores s = s" by (simp add: lstrip_underscores_def)
  from ne strip lower sub coll lstrip s dig show ?thesis
    by (simp add: sanitize_column_name_def)
qed

lemmas column_map_defs =
  build_column_map_def while_candidate.simps candidate_name_def py_str_int_def str_nat.simps
  Let_def

lemma email_example:
  "build_column_map [u ''Email'', u ''email'', u ''EMAIL''] =
     Some (Inr [(u ''Email'', u ''email''), (u ''email'', u ''email_2''),
                (u ''EMAIL'', u ''email_3'')])"
  by (simp add: column_map_defs sanitize_defs)

text \<open>
  C1. Whenever \<open>build_column_map\<close> returns, its sanitized names are pairwise distinct and
  none is \<open>id\<close>; there is one pair per header, in header order; and every pair follows the
  naming rule: a header whose base name is already taken (by \<open>id\<close> or by an earlier pair)
  gets the base with \<open>_n\<close> appended and cut to 63 characters, for the least \<open>n \<ge> 2\<close> whose
  candidate is not taken, and any other header gets its base name. On
  \<open>["Email", "email", "EMAIL"]\<close> the names are \<open>email\<close>, \<open>email_2\<close>, \<open>email_3\<close>.
\<close>

theorem build_column_map_names:
  assumes "build_column_map headers = Some (Inr col_map)"
  shows "distinct (map snd col_map) \<and> u ''id'' \<notin> set (map snd col_map) \<and>
         map fst col_map = headers \<and> (\<forall>i<length col_map. spec_naming col_map i) \<and>
         build_column_map [u ''Email'', u ''email'', u ''EMAIL''] =
           Some (Inr [(u ''Email'', u ''email''), (u ''email'', u ''email_2''),
                      (u ''EMAIL'', u ''email_3'')])"
  using build_column_map_inv [OF assms] email_example by auto

theorem build_column_map_names_witness:
  "build_column_map [u ''Email'', u ''email'', u ''EMAIL''] =
     Some (Inr [(u ''Email'', u ''email''), (u ''email'', u ''email_2''),
                (u ''EMAIL'', u ''email_3'')]) \<and>
   distinct [u ''email'', u ''email_2'', u ''email_3''] \<and>
   u ''id'' \<notin> {u ''email'', u ''email_2'', u ''email_3''} \<and>
   spec_naming [(u ''Email'', u ''email''), (u ''email'', u ''email_2''),
                (u ''EMAIL'', u ''email_3'')] 2"
  using build_column_map_names [OF email_example] by simp

text \<open>
  C3 fails on two headers that share their first 63 characters: the candidate
  \<open>base_2\<close>, cut to 63 characters, is the base name again, which is taken, and so is every
  later candidate; the inner loop never ends and \<open>build_column_map\<close> does not return.
\<close>

theorem build_column_map_no_return:
  "build_column_map [replicate 63 97 @ [98], replicate 63 97 @ [99]] = None"
proof (rule build_column_map_hangs)
  have "sanitize_column_name (replicate 63 97 @ [98]) = take 63 (replicate 63 97 @ [98])"
    by (rule sanitize_lowercase) simp_all
  then have a: "sanitize_column_name (replicate 63 97 @ [98]) = replicate 63 97"
    by simp
  have "sanitize_column_name (replicate 63 97 @ [99]) = take 63 (replicate 63 97 @ [99])"
    by (rule sanitize_lowercase) simp_all
  then have b: "sanitize_column_name (replicate 63 97 @ [99]) = replicate 63 97"
    by simp
  from a b show "sanitize_column_name (replicate 63 97 @ [99]) =
      sanitize_column_name (replicate 63 97 @ [98])"
    by simp
  from a show "length (sanitize_column_name (replicate 63 97 @ [98])) = 63" by simp
qed

text \<open>
  C8. Whenever \<open>build_column_map\<close> returns, looking up the sanitized name of any position
  among the recorded pairs gives back the header at that position.
\<close>

theorem build_column_map_round_trip:
  assumes "build_column_map headers = Some (Inr col_map)"
  shows "\<forall>i<length headers. original_of col_map (snd (col_map ! i)) = Some (headers ! i)"
proof (intro allI impI)
  fix i assume i: "i < length headers"
  from build_column_map_inv [OF assms]
  have hs: "map fst col_map = headers" and dist: "distinct (map snd col_map)" by auto
  let ?swapped = "map (\<lambda>(original, sanitized). (sanitized, original)) col_map"
  have fst_swapped: "map fst ?swapped = map snd col_map"
    by (induction col_map) auto
  from hs i have len: "i < length col_map" by auto
  with hs have "fst (col_map ! i) = headers ! i" by (metis nth_map)
  moreover from len have "col_map ! i \<in> set col_map" by (rule nth_mem)
  ultimately have "(headers ! i, snd (col_map ! i)) \<in> set col_map"
    by (metis prod.collapse)
  then have mem: "(snd (col_map ! i), headers ! i) \<in> set ?swapped"
    by force
  from dist fst_swapped have "distinct (map fst ?swapped)" by (simp only:)
  then have "map_of ?swapped (snd (col_map ! i)) = Some (headers ! i)"
    using mem by (rule map_of_is_SomeI)
  then show "original_of col_map (snd (col_map ! i)) = Some (headers ! i)"
    by (simp only: original_of_def)
qed

theorem build_column_map_round_trip_witness:
  "build_column_map [u ''Email'', u ''email'', u ''EMAIL''] =
     Some (Inr [(u ''Email'', u ''email''), (u ''email'', u ''email_2''),
                (u ''EMAIL'', u ''email_3'')]) \<and>
   original_of [(u ''Email'', u ''email''), (u ''email'', u ''email_2''),
                (u ''EMAIL'', u ''email_3'')] (u ''email_3'') = Some (u ''EMAIL'')"
  using build_column_map_round_trip [OF email_example, rule_format, of 2] email_example
  by simp

section \<open>The row filter, the values and the SQL text\<close>

lemmas filter_defs = filter_rows_def TEST_ENTRIES_def py_get_def Let_def

lemma filter_loop_filter: "filter_loop kept rows = kept @ filter row_kept rows"
  by (induction rows arbitrary: kept) (simp_all add: TEST_ENTRIES_def row_kept_def Let_def)

lemma filter_rows_filter: "filter_rows rows = filter row_kept rows"
  by (simp add: filter_rows_def filter_loop_filter)

lemma john_doe_example: "filter_rows [john_doe, a_b] = [a_b]"
  by (simp add: filter_defs john_doe_def a_b_def sanitize_defs)

lemma dropWhile_blank: "blank pre \<Longrightarrow> dropWhile py_isspace (pre @ xs) = dropWhile py_isspace xs"
  by (simp add: blank_def dropWhile_append2)

lemma strip_blank_iff: "py_strip s = [] \<longleftrightarrow> blank s"
proof
  assume "blank s"
  then have "dropWhile py_isspace s = []" by (induction s) (auto simp: blank_def)
  then show "py_strip s = []" by (simp only: py_strip_def rev.simps dropWhile.simps)
next
  assume e: "py_strip s = []"
  show "blank s"
  proof (rule ccontr)
    assume "\<not> blank s"
    then obtain c where c: "c \<in> set s" "\<not> py_isspace c" by (auto simp: blank_def)
    then have "c \<in> set (py_strip s)" by (rule strip_keeps)
    with e show False by simp
  qed
qed

lemma trimmed_unique:
  assumes "trimmed_to s t"
  shows "py_strip s = t"
proof -
  from assms obtain pre post where s: "s = pre @ t @ post" and pre: "blank pre"
    and post: "blank post"
    and ends: "t \<noteq> [] \<longrightarrow> \<not> py_isspace (hd t) \<and> \<not> py_isspace (last t)"
    unfolding trimmed_to_def by blast
  show ?thesis
  proof (cases "t = []")
    case True
    with s pre post have "blank s" by (auto simp: blank_def)
    with True show ?thesis by (simp add: strip_blank_iff)
  next
    case False
    with ends have h: "\<not> py_isspace (hd t)" and l: "\<not> py_isspace (last t)" by auto
    from False h have "dropWhile py_isspace (t @ post) = t @ post"
      by (cases t) auto
    with s pre have d1: "dropWhile py_isspace s = t @ post"
      by (simp add: dropWhile_blank)
    from post have rp: "blank (rev post)" by (simp add: blank_def)
    from False l have "dropWhile py_isspace (rev t) = rev t"
      by (cases "rev t") (auto simp: last_rev [symmetric] hd_rev)
    with rp have "dropWhile py_isspace (rev post @ rev t) = rev t"
      by (simp add: dropWhile_blank)
    with d1 show ?thesis by (simp add: py_strip_def)
  qed
qed

lemma trimmed_strip: "trimmed_to s (py_strip s)"
proof -
  let ?rest = "dropWhile py_isspace s"
  let ?pre = "takeWhile py_isspace s"
  let ?post = "rev (takeWhile py_isspace (rev ?rest))"
  have t: "py_strip s = rev (dropWhile py_isspace (rev ?rest))" by (simp add: py_strip_def)
  have "rev (takeWhile py_isspace (rev ?rest) @ dropWhile py_isspace (rev ?rest)) =
      rev (rev ?rest)"
    by (simp only: takeWhile_dropWhile_id)
  then have "rev (dropWhile py_isspace (rev ?rest)) @ ?post = ?rest"
    by (simp only: rev_append rev_rev_ident)
  then have rest: "?rest = py_strip s @ ?post" by (simp only: t)
  have "s = ?pre @ ?rest" by simp
  with rest have s: "s = ?pre @ py_strip s @ ?post" by simp
  have pre: "blank ?pre" by (auto simp: blank_def dest: set_takeWhileD)
  have post: "blank ?post" by (auto simp: blank_def dest: set_takeWhileD)
  have ends: "\<not> py_isspace (hd (py_strip s)) \<and> \<not> py_isspace (last (py_strip s))"
    if ne: "py_strip s \<noteq> []"
  proof
    from ne have "dropWhile py_isspace (rev ?rest) \<noteq> []" by (simp add: t)
    then have "\<not> py_isspace (hd (dropWhile py_isspace (rev ?rest)))" by (rule hd_dropWhile)
    with ne show "\<not> py_isspace (last (py_strip s))" by (simp add: t last_rev)
    from ne rest have "?rest \<noteq> []" by (metis Nil_is_append_conv)
    then have "\<not> py_isspace (hd ?rest)" by (rule hd_dropWhile)
    moreover from rest ne have "hd ?rest = hd (py_strip s)" by (metis hd_append2)
    ultimately show "\<not> py_isspace (hd (py_strip s))" by simp
  qed
  from s pre post ends show ?thesis unfolding trimmed_to_def by blast
qed

lemma lower_word:
  assumes "\<forall>d \<in> set w. 97 \<le> d \<and> d \<le> 122 \<and> d \<noteq> 107"
  shows "py_lower t = w \<longleftrightarrow> lowercase_is t w"
  using assms
proof (induction t arbitrary: w)
  case Nil
  show ?case by (auto simp: py_lower_def lowercase_is_def)
next
  case (Cons c t)
  show ?case
  proof (cases w)
    case Nil
    then show ?thesis by (simp add: py_lower_def lowercase_is_def lower_cp_def)
  next
    case (Cons d w')
    with Cons.prems have d: "97 \<le> d" "d \<le> 122" "d \<noteq> 107"
      and w': "\<forall>d \<in> set w'. 97 \<le> d \<and> d \<le> 122 \<and> d \<noteq> 107" by auto
    from Cons.IH [OF w'] have IH: "py_lower t = w' \<longleftrightarrow> lowercase_is t w'" .
    have step: "py_lower (c # t) = lower_cp c @ py_lower t" by (simp add: py_lower_def)
    consider (upper) "65 \<le> c" "c \<le> 90" | (dotted) "c = 304" | (kelvin) "c = 8490"
      | (other) "\<not> (65 \<le> c \<and> c \<le> 90)" "c \<noteq> 304" "c \<noteq> 8490" by blast
    then show ?thesis
    proof cases
      case upper
      then have "lower_cp c = [c + 32]" by (simp add: lower_cp_def)
      with step IH upper d Cons show ?thesis by (auto simp: lowercase_is_def)
    next
      case dotted
      then have l: "lower_cp c = [105, 775]" by (simp add: lower_cp_def)
      have "py_lower (c # t) \<noteq> w"
      proof
        assume "py_lower (c # t) = w"
        with step l have "775 \<in> set w" by auto
        with Cons.prems show False by auto
      qed
      moreover from dotted d Cons have "\<not> lowercase_is (c # t) w"
        by (auto simp: lowercase_is_def)
      ultimately show ?thesis by simp
    next
      case kelvin
      then have l: "lower_cp c = [107]" by (simp add: lower_cp_def)
      with step d Cons have "py_lower (c # t) \<noteq> w" by auto
      moreover from kelvin d Cons have "\<not> lowercase_is (c # t) w"
        by (auto simp: lowercase_is_def)
      ultimately show ?thesis by simp
    next
      case other
      then have "lower_cp c = [c]" by (simp add: lower_cp_def)
      with step IH other d Cons show ?thesis by (auto simp: lowercase_is_def)
    qed
  qed
qed

lemma reads_as_code:
  assumes "\<forall>d \<in> set w. 97 \<le> d \<and> d \<le> 122 \<and> d \<noteq> 107"
  shows "reads_as s w \<longleftrightarrow> py_lower (py_strip s) = w"
proof
  assume "reads_as s w"
  then obtain t where "trimmed_to s t" "lowercase_is t w" unfolding reads_as_def by blast
  with trimmed_unique lower_word [OF assms] show "py_lower (py_strip s) = w" by blast
next
  assume "py_lower (py_strip s) = w"
  with lower_word [OF assms] have "lowercase_is (py_strip s) w" by blast
  with trimmed_strip show "reads_as s w" unfolding reads_as_def by blast
qed

lemma field_py_get: "py_get row key [] = field row key"
  by (simp add: py_get_def field_def)

lemma row_kept_spec: "row_kept row = spec_keeps row"
proof -
  have j: "reads_as s (u ''john'') \<longleftrightarrow> py_lower (py_strip s) = u ''john''" for s
    by (rule reads_as_code) (simp add: u_def)
  have d: "reads_as s (u ''doe'') \<longleftrightarrow> py_lower (py_strip s) = u ''doe''" for s
    by (rule reads_as_code) (simp add: u_def)
  have t: "reads_as s (u ''test'') \<longleftrightarrow> py_lower (py_strip s) = u ''test''" for s
    by (rule reads_as_code) (simp add: u_def)
  have sb: "reads_as s (u ''subject'') \<longleftrightarrow> py_lower (py_strip s) = u ''subject''" for s
    by (rule reads_as_code) (simp add: u_def)
  show ?thesis
    unfolding row_kept_def spec_keeps_def field_py_get j d t sb strip_blank_iff
    by auto
qed

lemma more_rows_example:
  "filter_rows [padded_john, john_smith, test_subject, blank_contacts, a_b] = [john_smith, a_b]"
  by (simp add: filter_defs padded_john_def john_smith_def test_subject_def blank_contacts_def
      a_b_def sanitize_defs)

text \<open>
  C6. \<open>filter_rows\<close> returns exactly the rows the specification's rule keeps, in their
  order: a row is kept if and only if its (given name, family name) pair, each field
  trimmed and lowercased and a missing field read as empty, is not one of the test
  identities john doe and test subject, and its trimmed email address and phone number are
  not both empty. Of the John Doe row with empty contacts and the A B row with an email
  address, only the second is returned. A padded, capitalised John Doe with an email
  address, a Test Subject with a trailing tab and a row whose contacts are only whitespace
  are dropped, and a John Smith with a phone number only is kept.
\<close>

theorem filter_rows_keeps:
  "filter_rows rows = filter spec_keeps rows \<and>
   filter_rows [john_doe, a_b] = [a_b] \<and>
   filter_rows [padded_john, john_smith, test_subject, blank_contacts, a_b] = [john_smith, a_b]"
  using filter_rows_filter row_kept_spec john_doe_example more_rows_example
  by (simp add: fun_eq_iff [symmetric] cong: filter_cong)

theorem filter_rows_keeps_witness:
  "spec_keeps a_b \<and> \<not> spec_keeps padded_john \<and> \<not> spec_keeps blank_contacts \<and>
   filter_rows [john_doe, a_b] = [a_b]"
proof -
  have a: "filter_rows [a_b] = [a_b]"
    by (simp add: filter_defs a_b_def sanitize_defs)
  have p: "filter_rows [padded_john] = []"
    by (simp add: filter_defs padded_john_def sanitize_defs)
  have b: "filter_rows [blank_contacts] = []"
    by (simp add: filter_defs blank_contacts_def sanitize_defs)
  from a filter_rows_keeps [of "[a_b]"] have 1: "spec_keeps a_b"
    by (auto split: if_splits)
  from p filter_rows_keeps [of "[padded_john]"] have 2: "\<not> spec_keeps padded_john"
    by (auto split: if_splits)
  from b filter_rows_keeps [of "[blank_contacts]"] have 3: "\<not> spec_keeps blank_contacts"
    by (auto split: if_splits)
  from 1 2 3 filter_rows_keeps [of "[]"] show ?thesis by blast
qed

text \<open>
  C9. Filtering the output of \<open>filter_rows\<close> again returns it unchanged, and the output is a
  subsequence of the input: the surviving rows keep their relative order.
\<close>

theorem filter_rows_idempotent:
  "filter_rows (filter_rows rows) = filter_rows rows \<and> subseq (filter_rows rows) rows"
  by (simp add: filter_rows_filter)

lemma py_get_absent:
  assumes "map_of row key = None"
  shows "py_get (row @ [(key, [])]) h [] = py_get row h []"
  using assms by (cases "h = key") (auto simp: py_get_def map_add_def split: option.splits)

lemma row_kept_absent:
  assumes "map_of row key = None"
  shows "row_kept (row @ [(key, [])]) = row_kept row"
  unfolding row_kept_def by (simp only: py_get_absent [OF assms])

text \<open>
  C10. \<open>rows_to_values\<close> returns one value list per row, each as long as the header list;
  the value for a header is null when the row lacks the key or holds the empty string
  under it, and the cell text otherwise; a row with a key absent gives the same values as
  the row with that key holding the empty string; keys outside the header list do not
  matter. \<open>filter_rows\<close> likewise decides a row with an absent key as it decides the row
  with that key holding the empty string, and a row with neither contact key is dropped.
\<close>

theorem missing_key_is_empty:
  "length (rows_to_values rows headers) = length rows \<and>
   (\<forall>vs \<in> set (rows_to_values rows headers). length vs = length headers) \<and>
   (\<forall>i<length rows. \<forall>j<length headers.
      rows_to_values rows headers ! i ! j =
        (case map_of (rows ! i) (headers ! j) of
           None \<Rightarrow> None
         | Some v \<Rightarrow> if v = [] then None else Some v)) \<and>
   (map_of row key = None \<longrightarrow>
      rows_to_values [row @ [(key, [])]] headers = rows_to_values [row] headers) \<and>
   ((\<forall>h \<in> set headers. map_of row h = map_of row' h) \<longrightarrow>
      rows_to_values [row] headers = rows_to_values [row'] headers) \<and>
   (map_of row key = None \<longrightarrow>
      (filter_rows [row @ [(key, [])]] = []) = (filter_rows [row] = [])) \<and>
   (map_of row (u ''email_address'') = None \<and> map_of row (u ''phone_number'') = None \<longrightarrow>
      row \<notin> set (filter_rows rows))"
proof (intro conjI)
  show "length (rows_to_values rows headers) = length rows"
    by (simp add: rows_to_values_def)
  show "\<forall>vs \<in> set (rows_to_values rows headers). length vs = length headers"
    by (auto simp: rows_to_values_def)
  show "\<forall>i<length rows. \<forall>j<length headers.
      rows_to_values rows headers ! i ! j =
        (case map_of (rows ! i) (headers ! j) of
           None \<Rightarrow> None
         | Some v \<Rightarrow> if v = [] then None else Some v)"
    by (simp add: rows_to_values_def py_get_def Let_def split: option.splits)
  show "map_of row key = None \<longrightarrow>
      rows_to_values [row @ [(key, [])]] headers = rows_to_values [row] headers"
    by (simp add: rows_to_values_def py_get_absent)
  show "(\<forall>h \<in> set headers. map_of row h = map_of row' h) \<longrightarrow>
      rows_to_values [row] headers = rows_to_values [row'] headers"
    by (simp add: rows_to_values_def py_get_def)
  show "map_of row key = None \<longrightarrow>
      (filter_rows [row @ [(key, [])]] = []) = (filter_rows [row] = [])"
    by (simp add: filter_rows_filter row_kept_absent)
  show "map_of row (u ''email_address'') = None \<and> map_of row (u ''phone_number'') = None \<longrightarrow>
      row \<notin> set (filter_rows rows)"
    by (simp add: filter_rows_filter row_kept_def py_get_def py_strip_def)
qed

theorem missing_key_is_empty_witness:
  "rows_to_values [[(u ''name'', u ''Ann''), (u ''extra'', u ''x'')]] [u ''name'', u ''email'']
     = [[Some (u ''Ann''), None]] \<and>
   rows_to_values [[(u ''name'', u ''Ann''), (u ''extra'', u ''x''), (u ''email'', [])]]
       [u ''name'', u ''email'']
     = rows_to_values [[(u ''name'', u ''Ann''), (u ''extra'', u ''x'')]] [u ''name'', u ''email''] \<and>
   filter_rows [[(u ''given_name'', u ''Ann'')]] = []"
proof -
  let ?row = "[(u ''name'', u ''Ann''), (u ''extra'', u ''x'')]"
  let ?hs = "[u ''name'', u ''email'']"
  have absent: "map_of ?row (u ''email'') = None" by (simp add: u_def)
  have v: "rows_to_values [?row] ?hs = [[Some (u ''Ann''), None]]"
    by (simp add: rows_to_values_def py_get_def u_def)
  have "rows_to_values [?row @ [(u ''email'', [])]] ?hs = rows_to_values [?row] ?hs"
    using missing_key_is_empty [of "[?row]" ?hs ?row "u ''email''"] absent by blast
  then have e: "rows_to_values [[(u ''name'', u ''Ann''), (u ''extra'', u ''x''), (u ''email'', [])]] ?hs
      = rows_to_values [?row] ?hs"
    by simp
  have "map_of [(u ''given_name'', u ''Ann'')] (u ''email_address'') = None \<and>
        map_of [(u ''given_name'', u ''Ann'')] (u ''phone_number'') = None"
    by (simp add: u_def)
  with missing_key_is_empty [of "[[(u ''given_name'', u ''Ann'')]]" "[]" "[(u ''given_name'', u ''Ann'')]"]
  have "[(u ''given_name'', u ''Ann'')] \<notin> set (filter_rows [[(u ''given_name'', u ''Ann'')]])"
    by blast
  moreover have "subseq (filter_rows [[(u ''given_name'', u ''Ann'')]]) [[(u ''given_name'', u ''Ann'')]]"
    by (simp add: filter_rows_filter)
  ultimately have f: "filter_rows [[(u ''given_name'', u ''Ann'')]] = []"
    by (cases "filter_rows [[(u ''given_name'', u ''Ann'')]]") (auto simp: filter_rows_filter split: if_splits)
  from v e f show ?thesis by simp
qed


lemma py_replace_quote: "py_replace 39 [39, 39] s = spec_quote s"
  by (induction s) (simp_all add: py_replace_def)

lemma py_join_separated: "py_join sep parts = separated sep parts"
  by (induction sep parts rule: py_join.induct) (simp_all add: separated_def)

lemmas sql_defs =
  build_full_sql_def build_values_clause_def escape_sql_value_def py_replace_def py_str_def
  py_str_int_def str_nat.simps u_def Let_def

lemma people_example:
  \<open>build_full_sql (u ''people'') [u ''name'', u ''email'']
     [[Some (PyStr (u ''Ann'')), Some (PyStr (u ''a@x.com''))],
      [None, Some (PyStr (u ''b@x.com''))]] =
   u ''DROP TABLE IF EXISTS "people";'' @ [10] @
   u ''CREATE TABLE "people" ('' @ [10] @
   u ''    id SERIAL PRIMARY KEY,'' @ [10] @
   u ''    "name" TEXT,'' @ [10] @
   u ''    "email" TEXT'' @ [10] @
   u '');'' @ [10] @
   u ''INSERT INTO "people" ("name", "email") VALUES'' @ [10] @
   u ''('' @ [39] @ u ''Ann'' @ [39] @ u '', '' @ [39] @ u ''a@x.com'' @ [39] @ u ''),'' @ [10] @
   u ''(NULL, '' @ [39] @ u ''b@x.com'' @ [39] @ u '');''\<close>
  by (simp add: sql_defs)

lemma three_by_three_example:
  \<open>build_full_sql (u ''t'') [u ''a'', u ''b'', u ''c'']
     [[Some (PyStr (u ''x'')), None, Some (PyInt 7)],
      [Some (PyStr (u ''O'' @ [39] @ u ''Neil'')), Some (PyBool True), None],
      [None, None, Some (PyInt (- 30))]] =
   u ''DROP TABLE IF EXISTS "t";'' @ [10] @
   u ''CREATE TABLE "t" ('' @ [10] @
   u ''    id SERIAL PRIMARY KEY,'' @ [10] @
   u ''    "a" TEXT,'' @ [10] @
   u ''    "b" TEXT,'' @ [10] @
   u ''    "c" TEXT'' @ [10] @
   u '');'' @ [10] @
   u ''INSERT INTO "t" ("a", "b", "c") VALUES'' @ [10] @
   u ''('' @ [39] @ u ''x'' @ [39] @ u '', NULL, '' @ [39] @ u ''7'' @ [39] @ u ''),'' @ [10] @
   u ''('' @ [39] @ u ''O'' @ [39, 39] @ u ''Neil'' @ [39] @ u '', '' @
     [39] @ u ''True'' @ [39] @ u '', NULL),'' @ [10] @
   u ''(NULL, NULL, '' @ [39] @ u ''-30'' @ [39] @ u '');''\<close>
  by (simp add: sql_defs)

text \<open>
  C4. For every table name, column list and value rows, \<open>build_full_sql\<close> is the drop
  statement, the create statement and the insert statement in this order, each on a new
  line: the create statement lists the \<open>id SERIAL PRIMARY KEY\<close> column and then one
  \<open>TEXT\<close> column per identifier in input order; the insert statement names the columns by
  identifier in the same order and has one tuple per value row, in order, with one literal
  per value, in order; a null value is written \<open>NULL\<close>, any other value as its string form
  between single quotes with every single quote in it doubled. On table \<open>people\<close>, columns
  \<open>name\<close> and \<open>email\<close> and the rows \<open>["Ann", "a@x.com"]\<close>, \<open>[None, "b@x.com"]\<close> the second
  tuple is \<open>(NULL, 'b@x.com')\<close>; a table of three columns and three rows with a quote, an
  integer, a boolean and nulls is written out in full.
\<close>

theorem build_full_sql_statements:
  \<open>build_full_sql table col_names value_rows =
     (u ''DROP TABLE IF EXISTS "'' @ table @ u ''";'') @ [10] @
     (u ''CREATE TABLE "'' @ table @ u ''" ('' @ [10] @
      u ''    id SERIAL PRIMARY KEY,'' @ [10] @
      u ''    '' @ separated (u '','' @ [10] @ u ''    '')
                   (map (\<lambda>col. u ''"'' @ col @ u ''" TEXT'') col_names) @ [10] @
      u '');'') @ [10] @
     (u ''INSERT INTO "'' @ table @ u ''" ('' @
      separated (u '', '') (map (\<lambda>col. u ''"'' @ col @ u ''"'') col_names) @
      u '') VALUES'' @ [10] @
      separated (u '','' @ [10])
        (map (\<lambda>row. u ''('' @ separated (u '', '') (map escape_sql_value row) @ u '')'')
           value_rows) @
      u '';'') \<and>
   escape_sql_value None = u ''NULL'' \<and>
   escape_sql_value (Some v) = [39] @ spec_quote (py_str v) @ [39] \<and>
   py_str (PyStr s) = s \<and>
   build_full_sql (u ''people'') [u ''name'', u ''email'']
     [[Some (PyStr (u ''Ann'')), Some (PyStr (u ''a@x.com''))],
      [None, Some (PyStr (u ''b@x.com''))]] =
   u ''DROP TABLE IF EXISTS "people";'' @ [10] @
   u ''CREATE TABLE "people" ('' @ [10] @
   u ''    id SERIAL PRIMARY KEY,'' @ [10] @
   u ''    "name" TEXT,'' @ [10] @
   u ''    "email" TEXT'' @ [10] @
   u '');'' @ [10] @
   u ''INSERT INTO "people" ("name", "email") VALUES'' @ [10] @
   u ''('' @ [39] @ u ''Ann'' @ [39] @ u '', '' @ [39] @ u ''a@x.com'' @ [39] @ u ''),'' @ [10] @
   u ''(NULL, '' @ [39] @ u ''b@x.com'' @ [39] @ u '');'' \<and>
   build_full_sql (u ''t'') [u ''a'', u ''b'', u ''c'']
     [[Some (PyStr (u ''x'')), None, Some (PyInt 7)],
      [Some (PyStr (u ''O'' @ [39] @ u ''Neil'')), Some (PyBool True), None],
      [None, None, Some (PyInt (- 30))]] =
   u ''DROP TABLE IF EXISTS "t";'' @ [10] @
   u ''CREATE TABLE "t" ('' @ [10] @
   u ''    id SERIAL PRIMARY KEY,'' @ [10] @
   u ''    "a" TEXT,'' @ [10] @
   u ''    "b" TEXT,'' @ [10] @
   u ''    "c" TEXT'' @ [10] @
   u '');'' @ [10] @
   u ''INSERT INTO "t" ("a", "b", "c") VALUES'' @ [10] @
   u ''('' @ [39] @ u ''x'' @ [39] @ u '', NULL, '' @ [39] @ u ''7'' @ [39] @ u ''),'' @ [10] @
   u ''('' @ [39] @ u ''O'' @ [39, 39] @ u ''Neil'' @ [39] @ u '', '' @
     [39] @ u ''True'' @ [39] @ u '', NULL),'' @ [10] @
   u ''(NULL, NULL, '' @ [39] @ u ''-30'' @ [39] @ u '');''\<close>
proof (intro conjI)
  show \<open>build_full_sql table col_names value_rows =
     (u ''DROP TABLE IF EXISTS "'' @ table @ u ''";'') @ [10] @
     (u ''CREATE TABLE "'' @ table @ u ''" ('' @ [10] @
      u ''    id SERIAL PRIMARY KEY,'' @ [10] @
      u ''    '' @ separated (u '','' @ [10] @ u ''    '')
                   (map (\<lambda>col. u ''"'' @ col @ u ''" TEXT'') col_names) @ [10] @
      u '');'') @ [10] @
     (u ''INSERT INTO "'' @ table @ u ''" ('' @
      separated (u '', '') (map (\<lambda>col. u ''"'' @ col @ u ''"'') col_names) @
      u '') VALUES'' @ [10] @
      separated (u '','' @ [10])
        (map (\<lambda>row. u ''('' @ separated (u '', '') (map escape_sql_value row) @ u '')'')
           value_rows) @
      u '';'')\<close>
    by (simp add: build_full_sql_def build_values_clause_def Let_def py_join_separated)
  show "escape_sql_value None = u ''NULL''"
    by (simp add: escape_sql_value_def)
  show "escape_sql_value (Some v) = [39] @ spec_quote (py_str v) @ [39]"
    by (simp add: escape_sql_value_def py_replace_quote)
  show "py_str (PyStr s) = s"
    by (simp add: py_str_def)
qed (rule people_example three_by_three_example)+

text \<open>
  The create script checks its three settings before anything else: with one of them unset
  the run raises \<open>ValueError\<close> and has done nothing.
\<close>

lemma create_main_config_first:
  assumes "unset PROJECT_REF \<or> unset MANAGEMENT_KEY \<or> unset TABLE_NAME"
  shows "create_main PROJECT_REF MANAGEMENT_KEY TABLE_NAME file api = Some (Raised ValueError, [])"
  using assms
  by (auto simp: create_main_def setting_def unset_def split: option.splits sum.splits)

text \<open>
  C5 fails in the upsert script, which checks \<open>SUPABASE_URL\<close> and \<open>SUPABASE_KEY\<close> only in
  \<open>get_client\<close>, after the input file has been read. With \<open>SUPABASE_URL\<close> unset and an
  empty array in the file the run reads the file, prints and ends with status 0; with one
  row in the file it reads the file, prints and only then raises \<open>ValueError\<close>.
\<close>

theorem upsert_main_late_check:
  "upsert_main None (Some (u ''key'')) (Some (u ''people'')) (Some (u ''id'')) (Dict [])
     (Rows []) True (Affected 0) =
     (Returned, [InputExists, InputRead, Stdout NothingToUpsert]) \<and>
   exit_status (fst (upsert_main None (Some (u ''key'')) (Some (u ''people'')) (Some (u ''id''))
     (Dict []) (Rows []) True (Affected 0))) = 0 \<and>
   upsert_main None (Some (u ''key'')) (Some (u ''people'')) (Some (u ''id'')) (Dict [])
     (Rows [a_b]) True (Affected 1) =
     (Raised ValueError, [InputExists, InputRead, Stdout (Mapped 1)])"
  by (simp add: upsert_main_def setting_def u_def get_client_def unset_def map_rows_def
      apply_column_map_def exit_status_def)

lemma setting_present:
  assumes "\<not> unset v"
  obtains s where "setting v = Inr s"
  using assms by (cases v) (auto simp: setting_def unset_def)

text \<open>
  C7. In a run of the create script with its settings present and an array of rows in the
  input file, if the array is empty or no row survives the filter, the run ends by
  \<open>sys.exit(0)\<close>, the last thing it did was to print a message, and it made no request to
  the database.
\<close>

theorem create_main_empty_input:
  assumes "\<not> unset PROJECT_REF" and "\<not> unset MANAGEMENT_KEY" and "\<not> unset TABLE_NAME"
    and "rows = [] \<or> filter_rows rows = []"
  shows "\<exists>evs m. create_main PROJECT_REF MANAGEMENT_KEY TABLE_NAME (Rows rows) api =
           Some (Exit 0, evs @ [Stdout m]) \<and>
         exit_status (Exit 0) = 0 \<and>
         (\<forall>r k q. PostQuery r k q \<notin> set (evs @ [Stdout m]))"
proof -
  from assms(1) obtain r where r: "setting PROJECT_REF = Inr r" by (rule setting_present)
  from assms(2) obtain k where k: "setting MANAGEMENT_KEY = Inr k" by (rule setting_present)
  from assms(3) obtain t where t: "setting TABLE_NAME = Inr t" by (rule setting_present)
  note s = r k t
  show ?thesis
  proof (cases "rows = []")
    case True
    with s have "create_main PROJECT_REF MANAGEMENT_KEY TABLE_NAME (Rows rows) api =
        Some (Exit 0, [InputExists, InputRead] @ [Stdout EmptyInput])"
      by (simp add: create_main_def load_rows_def)
    moreover have "\<forall>r k q. PostQuery r k q \<notin> set ([InputExists, InputRead] @ [Stdout EmptyInput])"
      by simp
    ultimately show ?thesis by (auto simp: exit_status_def)
  next
    case False
    with assms(4) have "filter_rows rows = []" by simp
    with s False have "create_main PROJECT_REF MANAGEMENT_KEY TABLE_NAME (Rows rows) api =
        Some (Exit 0, [InputExists, InputRead, Stdout (Filtered (length rows) 0)] @
                      [Stdout NothingLeft])"
      by (simp add: create_main_def load_rows_def Let_def)
    moreover have "\<forall>r k q. PostQuery r k q \<notin>
        set ([InputExists, InputRead, Stdout (Filtered (length rows) 0)] @ [Stdout NothingLeft])"
      by simp
    ultimately show ?thesis by (auto simp: exit_status_def)
  qed
qed

theorem create_main_empty_input_witness:
  "\<exists>evs m. create_main (Some (u ''ref'')) (Some (u ''key'')) (Some (u ''people''))
       (Rows [john_doe]) (\<lambda>sql. Response 200 True) =
     Some (Exit 0, evs @ [Stdout m]) \<and> PostQuery (u ''ref'') (u ''key'') [] \<notin> set (evs @ [Stdout m])"
proof -
  have f: "[john_doe] = [] \<or> filter_rows [john_doe] = []"
    by (simp add: filter_defs john_doe_def sanitize_defs)
  have "\<not> unset (Some (u ''ref''))" "\<not> unset (Some (u ''key''))" "\<not> unset (Some (u ''people''))"
    by (simp_all add: unset_def u_def)
  from create_main_empty_input [OF this f, of "\<lambda>sql. Response 200 True"]
  show ?thesis by blast
qed

end
